theory Spec2Isabelle
  imports Main
begin

section \<open>Outcomes, element type and free store\<close>

text \<open>
  A call either returns, or leaves by an exception, or has no defined result (undefined
  behaviour of C++, a failed \<^verbatim>\<open>assert\<close>). Both \<open>Ok\<close> and \<open>Throw\<close> carry the state in which
  the call is left.
\<close>

datatype exn = BadAlloc | ElementException

datatype ('r, 's) outcome = Ok 'r 's | Throw exn 's | UB

type_synonym addr = nat

datatype place = Slot addr nat | Temporary

datatype ctor = ValueCtor | ArgsCtor | CopyCtor | MoveCtor

datatype asg = CopyAsg | MoveAsg

text \<open>
  What an observer of the element type and of the allocator can count: calls of
  \<^verbatim>\<open>operator new\<close> and \<^verbatim>\<open>operator delete\<close>, constructor calls (with the kind of constructor
  and the value built), assignments and destructor calls.
\<close>

datatype 'a event =
    OperatorNew addr nat
  | OperatorDelete addr
  | Constructed ctor place 'a
  | Assigned asg place 'a
  | Destroyed place 'a

text \<open>
  The template parameter \<^verbatim>\<open>T\<close>: \<^verbatim>\<open>sizeof(T)\<close>, the two type traits that
  \<^verbatim>\<open>SafeInitializedRawMemory\<close> reads, the value of \<^verbatim>\<open>T()\<close>, the value a moved-from object
  is left with, and an oracle that says, from the events so far, whether the next
  constructor, assignment or allocation throws.
\<close>

record 'a elem_type =
  size_of :: nat
  nothrow_move_constructible :: bool
  copy_constructible :: bool
  value_init :: 'a
  moved_from :: "'a \<Rightarrow> 'a"
  throws :: "'a event list \<Rightarrow> 'a event \<Rightarrow> bool"

text \<open>
  The free store is a list of blocks, a block's address being its position. A freed
  block is \<open>None\<close>; a slot of a block is \<open>None\<close> while it is raw memory and \<open>Some x\<close> while
  it holds a live object of value \<open>x\<close>. \<open>leaked\<close> collects the objects whose storage was
  released or reused without their destructor having run.
\<close>

record 'a store =
  blocks :: "'a option list option list"
  trace :: "'a event list"
  leaked :: "'a list"

definition block :: "'a store \<Rightarrow> addr \<Rightarrow> 'a option list option" where
  "block s a = (if a < length (blocks s) then blocks s ! a else None)"

definition object :: "'a store \<Rightarrow> addr option \<Rightarrow> nat \<Rightarrow> 'a option" where
  "object s p i =
     (case p of None \<Rightarrow> None
      | Some a \<Rightarrow> (case block s a of None \<Rightarrow> None
                   | Some b \<Rightarrow> if i < length b then b ! i else None))"

definition put :: "addr \<Rightarrow> nat \<Rightarrow> 'a option \<Rightarrow> 'a store \<Rightarrow> 'a store" where
  "put a i c s = s\<lparr>blocks := (blocks s)[a := map_option (\<lambda>b. b[i := c]) (blocks s ! a)]\<rparr>"

definition log :: "'a event \<Rightarrow> 'a store \<Rightarrow> 'a store" where
  "log ev s = s\<lparr>trace := trace s @ [ev]\<rparr>"

definition is_move_construction :: "'a event \<Rightarrow> bool" where
  "is_move_construction ev = (case ev of Constructed MoveCtor _ _ \<Rightarrow> True | _ \<Rightarrow> False)"

definition is_copy_construction :: "'a event \<Rightarrow> bool" where
  "is_copy_construction ev = (case ev of Constructed CopyCtor _ _ \<Rightarrow> True | _ \<Rightarrow> False)"

definition is_destruction :: "'a event \<Rightarrow> bool" where
  "is_destruction ev = (case ev of Destroyed _ _ \<Rightarrow> True | _ \<Rightarrow> False)"

text \<open>A move constructor that is declared \<^verbatim>\<open>noexcept\<close> does not throw.\<close>

definition raises :: "'a elem_type \<Rightarrow> 'a store \<Rightarrow> 'a event \<Rightarrow> bool" where
  "raises T s ev =
     (throws T (trace s) ev \<and> \<not> (nothrow_move_constructible T \<and> is_move_construction ev))"

text \<open>No constructor, assignment or allocation of \<open>T\<close> ever throws.\<close>

definition never_throws :: "'a elem_type \<Rightarrow> bool" where
  "never_throws T = (\<forall>tr ev. \<not> throws T tr ev)"

text \<open>
  \<^verbatim>\<open>operator new(bytes)\<close>. The block it returns has room for \<open>bytes div sizeof(T)\<close> objects
  of type \<^verbatim>\<open>T\<close>, which is the number that the event \<open>OperatorNew\<close> records. No block of
  \<open>2 ^ 63\<close> or more bytes exists in a 64-bit address space (\<^verbatim>\<open>PTRDIFF_MAX\<close>), so such a
  request fails; a request of 0 bytes gives a block without room for any object.
\<close>

definition operator_new :: "'a elem_type \<Rightarrow> nat \<Rightarrow> 'a store \<Rightarrow> (addr, 'a store) outcome" where
  "operator_new T bytes s =
     (let a = length (blocks s); n = bytes div size_of T in
      if 2 ^ 63 \<le> bytes \<or> throws T (trace s) (OperatorNew a n) then Throw BadAlloc s
      else Ok a (log (OperatorNew a n) (s\<lparr>blocks := blocks s @ [Some (replicate n None)]\<rparr>)))"

definition operator_delete :: "addr option \<Rightarrow> 'a store \<Rightarrow> (unit, 'a store) outcome" where
  "operator_delete p s =
     (case p of None \<Rightarrow> Ok () s
      | Some a \<Rightarrow>
          (case block s a of None \<Rightarrow> UB
           | Some b \<Rightarrow>
               Ok () (log (OperatorDelete a)
                 (s\<lparr>blocks := (blocks s)[a := None],
                    leaked := leaked s @ map the (filter (\<lambda>c. c \<noteq> None) b)\<rparr>))))"

subsection \<open>Element life cycle\<close>

text \<open>Placement new of an object of value \<open>x\<close>, built by a constructor of kind \<open>c\<close>.\<close>

definition construct_at ::
  "'a elem_type \<Rightarrow> ctor \<Rightarrow> 'a \<Rightarrow> addr option \<Rightarrow> nat \<Rightarrow> 'a store \<Rightarrow> (unit, 'a store) outcome" where
  "construct_at T c x p i s =
     (case p of None \<Rightarrow> UB
      | Some a \<Rightarrow>
          (case block s a of None \<Rightarrow> UB
           | Some b \<Rightarrow>
               if i < length b then
                 if raises T s (Constructed c (Slot a i) x) then Throw ElementException s
                 else Ok () (log (Constructed c (Slot a i) x)
                        (put a i (Some x)
                          (s\<lparr>leaked := leaked s @ (case b ! i of None \<Rightarrow> [] | Some y \<Rightarrow> [y])\<rparr>)))
               else UB))"

definition copy_construct ::
  "'a elem_type \<Rightarrow> addr option \<Rightarrow> nat \<Rightarrow> addr option \<Rightarrow> nat \<Rightarrow> 'a store \<Rightarrow> (unit, 'a store) outcome" where
  "copy_construct T p i q j s =
     (case object s p i of None \<Rightarrow> UB | Some x \<Rightarrow> construct_at T CopyCtor x q j s)"

definition move_construct ::
  "'a elem_type \<Rightarrow> addr option \<Rightarrow> nat \<Rightarrow> addr option \<Rightarrow> nat \<Rightarrow> 'a store \<Rightarrow> (unit, 'a store) outcome" where
  "move_construct T p i q j s =
     (case object s p i of None \<Rightarrow> UB
      | Some x \<Rightarrow>
          (case construct_at T MoveCtor x q j s of
             Ok _ s1 \<Rightarrow> Ok () (put (the p) i (Some (moved_from T x)) s1)
           | Throw e s1 \<Rightarrow> Throw e s1
           | UB \<Rightarrow> UB))"

definition destroy_at :: "addr option \<Rightarrow> nat \<Rightarrow> 'a store \<Rightarrow> (unit, 'a store) outcome" where
  "destroy_at p i s =
     (case object s p i of None \<Rightarrow> UB
      | Some x \<Rightarrow> Ok () (log (Destroyed (Slot (the p) i) x) (put (the p) i None s)))"

definition assign_at ::
  "'a elem_type \<Rightarrow> asg \<Rightarrow> 'a \<Rightarrow> addr option \<Rightarrow> nat \<Rightarrow> 'a store \<Rightarrow> (unit, 'a store) outcome" where
  "assign_at T g x q j s =
     (case object s q j of None \<Rightarrow> UB
      | Some y \<Rightarrow>
          if raises T s (Assigned g (Slot (the q) j) x) then Throw ElementException s
          else Ok () (log (Assigned g (Slot (the q) j) x) (put (the q) j (Some x) s)))"

definition copy_assign ::
  "'a elem_type \<Rightarrow> addr option \<Rightarrow> nat \<Rightarrow> addr option \<Rightarrow> nat \<Rightarrow> 'a store \<Rightarrow> (unit, 'a store) outcome" where
  "copy_assign T p i q j s =
     (case object s p i of None \<Rightarrow> UB | Some x \<Rightarrow> assign_at T CopyAsg x q j s)"

definition move_assign ::
  "'a elem_type \<Rightarrow> addr option \<Rightarrow> nat \<Rightarrow> addr option \<Rightarrow> nat \<Rightarrow> 'a store \<Rightarrow> (unit, 'a store) outcome" where
  "move_assign T p i q j s =
     (case object s p i of None \<Rightarrow> UB
      | Some x \<Rightarrow>
          (case assign_at T MoveAsg x q j s of
             Ok _ s1 \<Rightarrow> Ok () (put (the p) i (Some (moved_from T x)) s1)
           | Throw e s1 \<Rightarrow> Throw e s1
           | UB \<Rightarrow> UB))"


subsection \<open>Constructor arguments\<close>

text \<open>
  What a caller passes where the source takes \<^verbatim>\<open>Args&&...\<close>, \<^verbatim>\<open>const T&\<close> or \<^verbatim>\<open>T&&\<close>:
  arguments that are not a \<^verbatim>\<open>T\<close> (and from which the constructor builds \<open>x\<close>), an lvalue
  or an rvalue of type \<^verbatim>\<open>T\<close> that lives outside the free store, or a reference to an
  element that lives in a slot of a block, as in \<^verbatim>\<open>v.Insert(v.begin(), v[2])\<close>. A
  reference is read when the constructor runs.
\<close>

datatype 'a arg = Args 'a | ConstRef 'a | RvalueRef 'a | ElementRef addr nat

definition arg_value :: "'a store \<Rightarrow> 'a arg \<Rightarrow> 'a option" where
  "arg_value s g =
     (case g of Args x \<Rightarrow> Some x | ConstRef x \<Rightarrow> Some x | RvalueRef x \<Rightarrow> Some x
      | ElementRef a i \<Rightarrow> object s (Some a) i)"

definition arg_ctor :: "'a arg \<Rightarrow> ctor" where
  "arg_ctor g =
     (case g of Args _ \<Rightarrow> ArgsCtor | ConstRef _ \<Rightarrow> CopyCtor | RvalueRef _ \<Rightarrow> MoveCtor
      | ElementRef _ _ \<Rightarrow> CopyCtor)"

text \<open>\<^verbatim>\<open>new (q + j) T(std::forward<Args>(args)...)\<close>\<close>

definition construct_from ::
  "'a elem_type \<Rightarrow> 'a arg \<Rightarrow> addr option \<Rightarrow> nat \<Rightarrow> 'a store \<Rightarrow> (unit, 'a store) outcome" where
  "construct_from T g q j s =
     (case arg_value s g of None \<Rightarrow> UB | Some x \<Rightarrow> construct_at T (arg_ctor g) x q j s)"

text \<open>The temporary \<^verbatim>\<open>T(std::forward<Args>(args)...)\<close>\<close>

definition construct_temporary :: "'a elem_type \<Rightarrow> 'a arg \<Rightarrow> 'a store \<Rightarrow> ('a, 'a store) outcome" where
  "construct_temporary T g s =
     (case arg_value s g of None \<Rightarrow> UB
      | Some x \<Rightarrow>
          if raises T s (Constructed (arg_ctor g) Temporary x) then Throw ElementException s
          else Ok x (log (Constructed (arg_ctor g) Temporary x) s))"

subsection \<open>The algorithms of the standard library that the source calls\<close>

fun destroy_n :: "addr option \<Rightarrow> nat \<Rightarrow> nat \<Rightarrow> 'a store \<Rightarrow> (unit, 'a store) outcome" where
  "destroy_n p i 0 s = Ok () s"
| "destroy_n p i (Suc n) s =
     (case destroy_at p i s of
        Ok _ s1 \<Rightarrow> destroy_n p (Suc i) n s1
      | Throw e s1 \<Rightarrow> Throw e s1
      | UB \<Rightarrow> UB)"

text \<open>
  The uninitialized algorithms construct front to back; when a constructor throws, the
  \<open>k\<close> objects built so far are destroyed and the exception goes on.
\<close>

fun copy_loop ::
  "'a elem_type \<Rightarrow> addr option \<Rightarrow> nat \<Rightarrow> addr option \<Rightarrow> nat \<Rightarrow> nat \<Rightarrow> nat \<Rightarrow> 'a store
     \<Rightarrow> (unit, 'a store) outcome" where
  "copy_loop T p i q j k 0 s = Ok () s"
| "copy_loop T p i q j k (Suc n) s =
     (case copy_construct T p (i + k) q (j + k) s of
        Ok _ s1 \<Rightarrow> copy_loop T p i q j (Suc k) n s1
      | Throw e s1 \<Rightarrow> (case destroy_n q j k s1 of Ok _ s2 \<Rightarrow> Throw e s2 | _ \<Rightarrow> UB)
      | UB \<Rightarrow> UB)"

definition uninitialized_copy_n ::
  "'a elem_type \<Rightarrow> addr option \<Rightarrow> nat \<Rightarrow> nat \<Rightarrow> addr option \<Rightarrow> nat \<Rightarrow> 'a store
     \<Rightarrow> (unit, 'a store) outcome" where
  "uninitialized_copy_n T p i n q j s = copy_loop T p i q j 0 n s"

fun move_loop ::
  "'a elem_type \<Rightarrow> addr option \<Rightarrow> nat \<Rightarrow> addr option \<Rightarrow> nat \<Rightarrow> nat \<Rightarrow> nat \<Rightarrow> 'a store
     \<Rightarrow> (unit, 'a store) outcome" where
  "move_loop T p i q j k 0 s = Ok () s"
| "move_loop T p i q j k (Suc n) s =
     (case move_construct T p (i + k) q (j + k) s of
        Ok _ s1 \<Rightarrow> move_loop T p i q j (Suc k) n s1
      | Throw e s1 \<Rightarrow> (case destroy_n q j k s1 of Ok _ s2 \<Rightarrow> Throw e s2 | _ \<Rightarrow> UB)
      | UB \<Rightarrow> UB)"

definition uninitialized_move_n ::
  "'a elem_type \<Rightarrow> addr option \<Rightarrow> nat \<Rightarrow> nat \<Rightarrow> addr option \<Rightarrow> nat \<Rightarrow> 'a store
     \<Rightarrow> (unit, 'a store) outcome" where
  "uninitialized_move_n T p i n q j s = move_loop T p i q j 0 n s"

fun value_loop ::
  "'a elem_type \<Rightarrow> addr option \<Rightarrow> nat \<Rightarrow> nat \<Rightarrow> nat \<Rightarrow> 'a store \<Rightarrow> (unit, 'a store) outcome" where
  "value_loop T q j k 0 s = Ok () s"
| "value_loop T q j k (Suc n) s =
     (case construct_at T ValueCtor (value_init T) q (j + k) s of
        Ok _ s1 \<Rightarrow> value_loop T q j (Suc k) n s1
      | Throw e s1 \<Rightarrow> (case destroy_n q j k s1 of Ok _ s2 \<Rightarrow> Throw e s2 | _ \<Rightarrow> UB)
      | UB \<Rightarrow> UB)"

definition uninitialized_value_construct_n ::
  "'a elem_type \<Rightarrow> addr option \<Rightarrow> nat \<Rightarrow> nat \<Rightarrow> 'a store \<Rightarrow> (unit, 'a store) outcome" where
  "uninitialized_value_construct_n T q j n s = value_loop T q j 0 n s"

text \<open>\<^verbatim>\<open>std::copy_n\<close>: copy assignment, front to back.\<close>

fun copy_n ::
  "'a elem_type \<Rightarrow> addr option \<Rightarrow> nat \<Rightarrow> nat \<Rightarrow> addr option \<Rightarrow> nat \<Rightarrow> 'a store
     \<Rightarrow> (unit, 'a store) outcome" where
  "copy_n T p i 0 q j s = Ok () s"
| "copy_n T p i (Suc n) q j s =
     (case copy_assign T p i q j s of
        Ok _ s1 \<Rightarrow> copy_n T p (Suc i) n q (Suc j) s1
      | Throw e s1 \<Rightarrow> Throw e s1
      | UB \<Rightarrow> UB)"

text \<open>
  \<^verbatim>\<open>std::move(first, last, d_first)\<close>: move assignment, front to back, of the \<open>n\<close> objects
  from \<open>p + i\<close> on to \<open>p + j\<close> on.
\<close>

fun move_forward_loop ::
  "'a elem_type \<Rightarrow> addr option \<Rightarrow> nat \<Rightarrow> nat \<Rightarrow> nat \<Rightarrow> 'a store \<Rightarrow> (unit, 'a store) outcome" where
  "move_forward_loop T p i 0 j s = Ok () s"
| "move_forward_loop T p i (Suc n) j s =
     (case move_assign T p i p j s of
        Ok _ s1 \<Rightarrow> move_forward_loop T p (Suc i) n (Suc j) s1
      | Throw e s1 \<Rightarrow> Throw e s1
      | UB \<Rightarrow> UB)"

definition std_move ::
  "'a elem_type \<Rightarrow> addr option \<Rightarrow> nat \<Rightarrow> nat \<Rightarrow> nat \<Rightarrow> 'a store \<Rightarrow> (unit, 'a store) outcome" where
  "std_move T p first lst d_first s =
     (if first \<le> lst then move_forward_loop T p first (lst - first) d_first s else UB)"

text \<open>
  \<^verbatim>\<open>std::move_backward(first, last, d_last)\<close>: \<^verbatim>\<open>while (first != last) *(--d_last) =
  std::move(*(--last));\<close> with \<open>n\<close> objects left to move.
\<close>

fun move_backward_loop ::
  "'a elem_type \<Rightarrow> addr option \<Rightarrow> nat \<Rightarrow> nat \<Rightarrow> nat \<Rightarrow> 'a store \<Rightarrow> (unit, 'a store) outcome" where
  "move_backward_loop T p first 0 d_last s = Ok () s"
| "move_backward_loop T p first (Suc n) d_last s =
     (if d_last = 0 then UB
      else case move_assign T p (first + n) p (d_last - 1) s of
        Ok _ s1 \<Rightarrow> move_backward_loop T p first n (d_last - 1) s1
      | Throw e s1 \<Rightarrow> Throw e s1
      | UB \<Rightarrow> UB)"

definition move_backward ::
  "'a elem_type \<Rightarrow> addr option \<Rightarrow> nat \<Rightarrow> nat \<Rightarrow> nat \<Rightarrow> 'a store \<Rightarrow> (unit, 'a store) outcome" where
  "move_backward T p first lst d_last s =
     (if first \<le> lst then move_backward_loop T p first (lst - first) d_last s else UB)"

section \<open>RawMemory\<close>

record RawMemory =
  buffer_f :: "addr option"
  capacity_f :: nat

text \<open>
  \<^verbatim>\<open>Allocate(n)\<close> asks for \<^verbatim>\<open>n * sizeof(T)\<close> bytes, a product of two \<^verbatim>\<open>size_t\<close> that wraps
  around at \<open>2 ^ 64\<close>.
\<close>

definition Allocate :: "'a elem_type \<Rightarrow> nat \<Rightarrow> 'a store \<Rightarrow> (addr option, 'a store) outcome" where
  "Allocate T n s =
     (if n \<noteq> 0 then
        (case operator_new T ((n * size_of T) mod 2 ^ 64) s of
           Ok a s1 \<Rightarrow> Ok (Some a) s1
         | Throw e s1 \<Rightarrow> Throw e s1
         | UB \<Rightarrow> UB)
      else Ok None s)"

definition Deallocate :: "addr option \<Rightarrow> 'a store \<Rightarrow> (unit, 'a store) outcome" where
  "Deallocate buf s = operator_delete buf s"

definition RawMemory_default :: RawMemory where
  "RawMemory_default = \<lparr>buffer_f = None, capacity_f = 0\<rparr>"

definition RawMemory_new :: "'a elem_type \<Rightarrow> nat \<Rightarrow> 'a store \<Rightarrow> (RawMemory, 'a store) outcome" where
  "RawMemory_new T capacity s =
     (case Allocate T capacity s of
        Ok p s1 \<Rightarrow> Ok \<lparr>buffer_f = p, capacity_f = capacity\<rparr> s1
      | Throw e s1 \<Rightarrow> Throw e s1
      | UB \<Rightarrow> UB)"

text \<open>\<open>RawMemory_Swap (this, other)\<close> gives the two objects after the call.\<close>

definition RawMemory_Swap :: "RawMemory \<times> RawMemory \<Rightarrow> RawMemory \<times> RawMemory" where
  "RawMemory_Swap mo =
     (case mo of (this, other) \<Rightarrow>
        (this\<lparr>buffer_f := buffer_f other, capacity_f := capacity_f other\<rparr>,
         other\<lparr>buffer_f := buffer_f this, capacity_f := capacity_f this\<rparr>))"

text \<open>The move constructor: the new object and what is left of \<open>other\<close>.\<close>

definition RawMemory_move :: "RawMemory \<Rightarrow> RawMemory \<times> RawMemory" where
  "RawMemory_move other = RawMemory_Swap (RawMemory_default, other)"

definition RawMemory_destroy :: "RawMemory \<Rightarrow> 'a store \<Rightarrow> (unit, 'a store) outcome" where
  "RawMemory_destroy m s = Deallocate (buffer_f m) s"

text \<open>\<^verbatim>\<open>operator+\<close> with its assertion: the pointer, as the buffer and an offset.\<close>

definition RawMemory_plus :: "RawMemory \<Rightarrow> nat \<Rightarrow> (addr option \<times> nat) option" where
  "RawMemory_plus m offset = (if offset \<le> capacity_f m then Some (buffer_f m, offset) else None)"

text \<open>\<^verbatim>\<open>operator[]\<close> with its assertion.\<close>

definition RawMemory_at :: "RawMemory \<Rightarrow> nat \<Rightarrow> (addr option \<times> nat) option" where
  "RawMemory_at m index = (if index < capacity_f m then Some (buffer_f m, index) else None)"


section \<open>Vector\<close>

record Vector =
  data_f :: RawMemory
  size_f :: nat

text \<open>
  The conversion of a pointer difference to \<^verbatim>\<open>int\<close> (32 bits, two's complement), as in
  \<^verbatim>\<open>int index = pos - begin();\<close>
\<close>

definition to_int :: "int \<Rightarrow> int" where
  "to_int d = (d + 2 ^ 31) mod 2 ^ 32 - 2 ^ 31"

definition Vector_default :: Vector where
  "Vector_default = \<lparr>data_f = RawMemory_default, size_f = 0\<rparr>"

definition Size :: "Vector \<Rightarrow> nat" where
  "Size v = size_f v"

definition Capacity :: "Vector \<Rightarrow> nat" where
  "Capacity v = capacity_f (data_f v)"

text \<open>\<^verbatim>\<open>operator[]\<close> with its assertion: the slot of the element.\<close>

definition Vector_at :: "Vector \<Rightarrow> nat \<Rightarrow> (addr option \<times> nat) option" where
  "Vector_at v index = (if index < size_f v then RawMemory_at (data_f v) index else None)"

text \<open>
  A constructor returns the new object. When its body throws, the member \<^verbatim>\<open>data_\<close>, which
  is already built, is destroyed.
\<close>

definition Vector_sized :: "'a elem_type \<Rightarrow> nat \<Rightarrow> 'a store \<Rightarrow> (Vector, 'a store) outcome" where
  "Vector_sized T size' s =
     (case RawMemory_new T size' s of
        Throw e s1 \<Rightarrow> Throw e s1
      | UB \<Rightarrow> UB
      | Ok d s1 \<Rightarrow>
          (case uninitialized_value_construct_n T (buffer_f d) 0 size' s1 of
             Ok _ s2 \<Rightarrow> Ok \<lparr>data_f = d, size_f = size'\<rparr> s2
           | Throw e s2 \<Rightarrow> (case RawMemory_destroy d s2 of Ok _ s3 \<Rightarrow> Throw e s3 | _ \<Rightarrow> UB)
           | UB \<Rightarrow> UB))"

definition Vector_copy :: "'a elem_type \<Rightarrow> Vector \<Rightarrow> 'a store \<Rightarrow> (Vector, 'a store) outcome" where
  "Vector_copy T other s =
     (case RawMemory_new T (size_f other) s of
        Throw e s1 \<Rightarrow> Throw e s1
      | UB \<Rightarrow> UB
      | Ok d s1 \<Rightarrow>
          (case uninitialized_copy_n T (buffer_f (data_f other)) 0 (size_f other) (buffer_f d) 0 s1 of
             Ok _ s2 \<Rightarrow> Ok \<lparr>data_f = d, size_f = size_f other\<rparr> s2
           | Throw e s2 \<Rightarrow> (case RawMemory_destroy d s2 of Ok _ s3 \<Rightarrow> Throw e s3 | _ \<Rightarrow> UB)
           | UB \<Rightarrow> UB))"

text \<open>The move constructor: the new object and what is left of \<open>other\<close>.\<close>

definition Vector_move :: "Vector \<Rightarrow> Vector \<times> Vector" where
  "Vector_move other =
     (case RawMemory_move (data_f other) of
        (d, od) \<Rightarrow> (\<lparr>data_f = d, size_f = size_f other\<rparr>, other\<lparr>data_f := od\<rparr>))"

text \<open>\<open>Swap (this, other)\<close> gives the two objects after the call.\<close>

definition Swap :: "Vector \<times> Vector \<Rightarrow> Vector \<times> Vector" where
  "Swap vo =
     (case vo of (this, other) \<Rightarrow>
        (case RawMemory_Swap (data_f this, data_f other) of
           (d, od) \<Rightarrow> (\<lparr>data_f = d, size_f = size_f other\<rparr>, \<lparr>data_f = od, size_f = size_f this\<rparr>)))"

definition Vector_destroy :: "Vector \<Rightarrow> 'a store \<Rightarrow> (unit, 'a store) outcome" where
  "Vector_destroy v s =
     (case (if buffer_f (data_f v) \<noteq> None then destroy_n (buffer_f (data_f v)) 0 (size_f v) s
            else Ok () s) of
        Ok _ s1 \<Rightarrow> RawMemory_destroy (data_f v) s1
      | Throw e s1 \<Rightarrow> Throw e s1
      | UB \<Rightarrow> UB)"

definition SafeInitializedRawMemory ::
  "'a elem_type \<Rightarrow> addr option \<Rightarrow> nat \<Rightarrow> nat \<Rightarrow> addr option \<Rightarrow> nat \<Rightarrow> 'a store
     \<Rightarrow> (unit, 'a store) outcome" where
  "SafeInitializedRawMemory T p i count q j s =
     (if nothrow_move_constructible T \<or> \<not> copy_constructible T
      then uninitialized_move_n T p i count q j s
      else uninitialized_copy_n T p i count q j s)"

text \<open>
  A member function takes the object \<open>v\<close> and the store, and leaves both in its outcome.
  A local \<^verbatim>\<open>RawMemory new_data\<close> is destroyed when its scope is left, by return or by
  exception.
\<close>

definition Reserve ::
  "'a elem_type \<Rightarrow> nat \<Rightarrow> Vector \<Rightarrow> 'a store \<Rightarrow> (unit, Vector \<times> 'a store) outcome" where
  "Reserve T capacity v s =
     (if capacity_f (data_f v) \<ge> capacity then Ok () (v, s)
      else
        case RawMemory_new T capacity s of
          Throw e s1 \<Rightarrow> Throw e (v, s1)
        | UB \<Rightarrow> UB
        | Ok new_data s1 \<Rightarrow>
            (case SafeInitializedRawMemory T (buffer_f (data_f v)) 0 (size_f v)
                    (buffer_f new_data) 0 s1 of
               Throw e s2 \<Rightarrow>
                 (case RawMemory_destroy new_data s2 of Ok _ s3 \<Rightarrow> Throw e (v, s3) | _ \<Rightarrow> UB)
             | UB \<Rightarrow> UB
             | Ok _ s2 \<Rightarrow>
                 (case destroy_n (buffer_f (data_f v)) 0 (size_f v) s2 of
                    Ok _ s3 \<Rightarrow>
                      (case RawMemory_Swap (data_f v, new_data) of
                         (d, nd) \<Rightarrow>
                           (case RawMemory_destroy nd s3 of
                              Ok _ s4 \<Rightarrow> Ok () (v\<lparr>data_f := d\<rparr>, s4)
                            | _ \<Rightarrow> UB))
                  | _ \<Rightarrow> UB)))"

definition Resize ::
  "'a elem_type \<Rightarrow> nat \<Rightarrow> Vector \<Rightarrow> 'a store \<Rightarrow> (unit, Vector \<times> 'a store) outcome" where
  "Resize T new_size v s =
     (case Reserve T new_size v s of
        Throw e vs \<Rightarrow> Throw e vs
      | UB \<Rightarrow> UB
      | Ok _ (v1, s1) \<Rightarrow>
          (case (if new_size \<le> capacity_f (data_f v1) then
                   (case (if new_size > size_f v1
                          then uninitialized_value_construct_n T (buffer_f (data_f v1)) (size_f v1)
                                 (new_size - size_f v1) s1
                          else Ok () s1) of
                      Ok _ s2 \<Rightarrow>
                        (if new_size < size_f v1
                         then destroy_n (buffer_f (data_f v1)) new_size (size_f v1 - new_size) s2
                         else Ok () s2)
                    | Throw e s2 \<Rightarrow> Throw e s2
                    | UB \<Rightarrow> UB)
                 else Ok () s1) of
             Throw e s3 \<Rightarrow> Throw e (v1, s3)
           | UB \<Rightarrow> UB
           | Ok _ s3 \<Rightarrow>
               (if new_size > capacity_f (data_f v1) then
                  (case Reserve T new_size v1 s3 of
                     Throw e vs \<Rightarrow> Throw e vs
                   | UB \<Rightarrow> UB
                   | Ok _ (v2, s4) \<Rightarrow>
                       (case uninitialized_value_construct_n T (buffer_f (data_f v2)) (size_f v2)
                               ((new_size + 2 ^ 64 - size_f v2) mod 2 ^ 64) s4 of
                          Ok _ s5 \<Rightarrow> Ok () (v2\<lparr>size_f := new_size\<rparr>, s5)
                        | Throw e s5 \<Rightarrow> Throw e (v2, s5)
                        | UB \<Rightarrow> UB))
                else Ok () (v1\<lparr>size_f := new_size\<rparr>, s3))))"

text \<open>The template \<^verbatim>\<open>PushBack(Type&& value)\<close>\<close>

definition PushBack_forward ::
  "'a elem_type \<Rightarrow> 'a arg \<Rightarrow> Vector \<Rightarrow> 'a store \<Rightarrow> (unit, Vector \<times> 'a store) outcome" where
  "PushBack_forward T value v s =
     (if size_f v < capacity_f (data_f v) then
        (case construct_from T value (buffer_f (data_f v)) (size_f v) s of
           Ok _ s1 \<Rightarrow> Ok () (v\<lparr>size_f := (size_f v + 1) mod 2 ^ 64\<rparr>, s1)
         | Throw e s1 \<Rightarrow> Throw e (v, s1)
         | UB \<Rightarrow> UB)
      else
        case RawMemory_new T (if size_f v = 0 then 1 else (size_f v * 2) mod 2 ^ 64) s of
          Throw e s1 \<Rightarrow> Throw e (v, s1)
        | UB \<Rightarrow> UB
        | Ok new_data s1 \<Rightarrow>
            (case construct_from T value (buffer_f new_data) (size_f v) s1 of
               Throw e s2 \<Rightarrow>
                 (case RawMemory_destroy new_data s2 of Ok _ s3 \<Rightarrow> Throw e (v, s3) | _ \<Rightarrow> UB)
             | UB \<Rightarrow> UB
             | Ok _ s2 \<Rightarrow>
                 (case SafeInitializedRawMemory T (buffer_f (data_f v)) 0 (size_f v)
                         (buffer_f new_data) 0 s2 of
                    Throw e s3 \<Rightarrow>
                      (case RawMemory_destroy new_data s3 of
                         Ok _ s4 \<Rightarrow> Throw e (v, s4)
                       | _ \<Rightarrow> UB)
                  | UB \<Rightarrow> UB
                  | Ok _ s3 \<Rightarrow>
                      (case destroy_n (buffer_f (data_f v)) 0 (size_f v) s3 of
                         Ok _ s4 \<Rightarrow>
                           (case RawMemory_Swap (data_f v, new_data) of
                              (d, nd) \<Rightarrow>
                                (case RawMemory_destroy nd s4 of
                                   Ok _ s5 \<Rightarrow>
                                     Ok () (v\<lparr>data_f := d, size_f := (size_f v + 1) mod 2 ^ 64\<rparr>, s5)
                                 | _ \<Rightarrow> UB))
                       | _ \<Rightarrow> UB))))"

text \<open>
  \<^verbatim>\<open>data_.GetAddress() + size_ - 1\<close> is no pointer into the block when \<^verbatim>\<open>size_\<close> is 0.
\<close>

definition PopBack :: "Vector \<Rightarrow> 'a store \<Rightarrow> (unit, Vector \<times> 'a store) outcome" where
  "PopBack v s =
     (if size_f v = 0 then UB
      else case destroy_n (buffer_f (data_f v)) (size_f v - 1) 1 s of
        Ok _ s1 \<Rightarrow> Ok () (v\<lparr>size_f := size_f v - 1\<rparr>, s1)
      | _ \<Rightarrow> UB)"

text \<open>
  An iterator \<^verbatim>\<open>pos\<close> of the vector is given by the number \<^verbatim>\<open>pos - begin()\<close>, and so is the
  iterator that a member function returns. A negative \<^verbatim>\<open>index\<close> makes \<^verbatim>\<open>begin() + index\<close>
  and \<^verbatim>\<open>new_data.GetAddress() + index\<close> undefined.
\<close>

definition EmplaceWithoutReallocate ::
  "'a elem_type \<Rightarrow> nat \<Rightarrow> 'a arg \<Rightarrow> Vector \<Rightarrow> 'a store \<Rightarrow> (nat, Vector \<times> 'a store) outcome" where
  "EmplaceWithoutReallocate T pos g v s =
     (let index = to_int (int pos) in
      if pos \<noteq> size_f v then
        (if size_f v = 0 then UB
         else case RawMemory_at (data_f v) (size_f v - 1) of
           None \<Rightarrow> UB
         | Some (p, i) \<Rightarrow>
             (case move_construct T p i (buffer_f (data_f v)) (size_f v) s of
                Throw e s1 \<Rightarrow> Throw e (v, s1)
              | UB \<Rightarrow> UB
              | Ok _ s1 \<Rightarrow>
                  if index < 0 then UB
                  else
                    (case move_backward T (buffer_f (data_f v)) (nat index) (size_f v - 1)
                            (size_f v) s1 of
                       Throw e s2 \<Rightarrow> Throw e (v, s2)
                     | UB \<Rightarrow> UB
                     | Ok _ s2 \<Rightarrow>
                         (case construct_temporary T g s2 of
                            Throw e s3 \<Rightarrow> Throw e (v, s3)
                          | UB \<Rightarrow> UB
                          | Ok x s3 \<Rightarrow>
                              (case assign_at T MoveAsg x (buffer_f (data_f v)) (nat index) s3 of
                                 Throw e s4 \<Rightarrow> Throw e (v, log (Destroyed Temporary x) s4)
                               | UB \<Rightarrow> UB
                               | Ok _ s4 \<Rightarrow>
                                   Ok (nat index)
                                     (v\<lparr>size_f := (size_f v + 1) mod 2 ^ 64\<rparr>,
                                      log (Destroyed Temporary (moved_from T x)) s4))))))
      else
        (case construct_from T g (buffer_f (data_f v)) (size_f v) s of
           Throw e s1 \<Rightarrow> Throw e (v, s1)
         | UB \<Rightarrow> UB
         | Ok _ s1 \<Rightarrow>
             if index < 0 then UB
             else Ok (nat index) (v\<lparr>size_f := (size_f v + 1) mod 2 ^ 64\<rparr>, s1)))"

definition EmplaceWithReallocate ::
  "'a elem_type \<Rightarrow> nat \<Rightarrow> 'a arg \<Rightarrow> Vector \<Rightarrow> 'a store \<Rightarrow> (nat, Vector \<times> 'a store) outcome" where
  "EmplaceWithReallocate T pos g v s =
     (let index = to_int (int pos) in
      case RawMemory_new T (if size_f v = 0 then 1 else (size_f v * 2) mod 2 ^ 64) s of
        Throw e s1 \<Rightarrow> Throw e (v, s1)
      | UB \<Rightarrow> UB
      | Ok new_data s1 \<Rightarrow>
          if index < 0 then UB
          else
            (case construct_from T g (buffer_f new_data) (nat index) s1 of
               Throw e s2 \<Rightarrow>
                 (case RawMemory_destroy new_data s2 of Ok _ s3 \<Rightarrow> Throw e (v, s3) | _ \<Rightarrow> UB)
             | UB \<Rightarrow> UB
             | Ok _ s2 \<Rightarrow>
                 (case SafeInitializedRawMemory T (buffer_f (data_f v)) 0 (nat index)
                         (buffer_f new_data) 0 s2 of
                    Throw e s3 \<Rightarrow>
                      (case RawMemory_destroy new_data s3 of
                         Ok _ s4 \<Rightarrow> Throw e (v, s4)
                       | _ \<Rightarrow> UB)
                  | UB \<Rightarrow> UB
                  | Ok _ s3 \<Rightarrow>
                      (case SafeInitializedRawMemory T (buffer_f (data_f v)) (nat index)
                              ((size_f v + 2 ^ 64 - nat index) mod 2 ^ 64)
                              (buffer_f new_data) (nat index + 1) s3 of
                         Throw e s4 \<Rightarrow>
                           (case RawMemory_destroy new_data s4 of
                              Ok _ s5 \<Rightarrow> Throw e (v, s5)
                            | _ \<Rightarrow> UB)
                       | UB \<Rightarrow> UB
                       | Ok _ s4 \<Rightarrow>
                           (case destroy_n (buffer_f (data_f v)) 0 (size_f v) s4 of
                              Ok _ s5 \<Rightarrow>
                                (case RawMemory_Swap (data_f v, new_data) of
                                   (d, nd) \<Rightarrow>
                                     (case RawMemory_destroy nd s5 of
                                        Ok _ s6 \<Rightarrow>
                                          Ok (nat index)
                                            (v\<lparr>data_f := d, size_f := (size_f v + 1) mod 2 ^ 64\<rparr>, s6)
                                      | _ \<Rightarrow> UB))
                            | _ \<Rightarrow> UB)))))"

definition Emplace ::
  "'a elem_type \<Rightarrow> nat \<Rightarrow> 'a arg \<Rightarrow> Vector \<Rightarrow> 'a store \<Rightarrow> (nat, Vector \<times> 'a store) outcome" where
  "Emplace T pos g v s =
     (if Capacity v > size_f v then EmplaceWithoutReallocate T pos g v s
      else EmplaceWithReallocate T pos g v s)"

text \<open>\<^verbatim>\<open>EmplaceBack\<close> emplaces at \<^verbatim>\<open>end()\<close>; the reference it returns is not modelled.\<close>

definition EmplaceBack ::
  "'a elem_type \<Rightarrow> 'a arg \<Rightarrow> Vector \<Rightarrow> 'a store \<Rightarrow> (unit, Vector \<times> 'a store) outcome" where
  "EmplaceBack T g v s =
     (case Emplace T (size_f v) g v s of
        Ok _ vs \<Rightarrow> Ok () vs
      | Throw e vs \<Rightarrow> Throw e vs
      | UB \<Rightarrow> UB)"

text \<open>
  A parameter \<^verbatim>\<open>const T& value\<close> is forwarded as a constant lvalue whatever the caller
  passed, so that the copy constructor builds the element.
\<close>

definition const_ref :: "'a arg \<Rightarrow> 'a arg" where
  "const_ref g =
     (case g of Args x \<Rightarrow> ConstRef x | ConstRef x \<Rightarrow> ConstRef x | RvalueRef x \<Rightarrow> ConstRef x
      | ElementRef a i \<Rightarrow> ElementRef a i)"

text \<open>\<^verbatim>\<open>PushBack(const T& value)\<close>\<close>

definition PushBack ::
  "'a elem_type \<Rightarrow> 'a arg \<Rightarrow> Vector \<Rightarrow> 'a store \<Rightarrow> (unit, Vector \<times> 'a store) outcome" where
  "PushBack T value v s = EmplaceBack T (const_ref value) v s"

text \<open>\<^verbatim>\<open>Insert(const_iterator pos, const T& value)\<close>\<close>

definition Insert ::
  "'a elem_type \<Rightarrow> nat \<Rightarrow> 'a arg \<Rightarrow> Vector \<Rightarrow> 'a store \<Rightarrow> (nat, Vector \<times> 'a store) outcome" where
  "Insert T pos value v s = Emplace T pos (const_ref value) v s"

text \<open>\<^verbatim>\<open>Insert(const_iterator pos, T&& value)\<close>, for an rvalue outside the store.\<close>

definition Insert_rvalue ::
  "'a elem_type \<Rightarrow> nat \<Rightarrow> 'a \<Rightarrow> Vector \<Rightarrow> 'a store \<Rightarrow> (nat, Vector \<times> 'a store) outcome" where
  "Insert_rvalue T pos x v s = Emplace T pos (RvalueRef x) v s"

definition Erase ::
  "'a elem_type \<Rightarrow> nat \<Rightarrow> Vector \<Rightarrow> 'a store \<Rightarrow> (nat, Vector \<times> 'a store) outcome" where
  "Erase T pos v s =
     (let index = to_int (int pos) in
      if index < 0 then UB
      else
        case std_move T (buffer_f (data_f v)) (nat index + 1) (size_f v) (nat index) s of
          Throw e s1 \<Rightarrow> Throw e (v, s1)
        | UB \<Rightarrow> UB
        | Ok _ s1 \<Rightarrow>
            (if size_f v = 0 then UB
             else case destroy_at (buffer_f (data_f v)) (size_f v - 1) s1 of
               Ok _ s2 \<Rightarrow> Ok (nat index) (v\<lparr>size_f := size_f v - 1\<rparr>, s2)
             | _ \<Rightarrow> UB))"

subsection \<open>Assignment, between Vector objects that have an address\<close>

text \<open>
  The assignment operators compare \<^verbatim>\<open>this\<close> with \<^verbatim>\<open>&rhs\<close>: here the Vector objects of the
  program are kept by address, and an operator takes the two addresses.
\<close>

type_synonym objects = "nat \<Rightarrow> Vector"

definition assign_move :: "nat \<Rightarrow> nat \<Rightarrow> objects \<Rightarrow> objects" where
  "assign_move this rhs vs =
     (if this \<noteq> rhs then
        (case Swap (vs this, vs rhs) of (v, r) \<Rightarrow> vs(this := v, rhs := r))
      else vs)"

definition assign_copy ::
  "'a elem_type \<Rightarrow> nat \<Rightarrow> nat \<Rightarrow> objects \<Rightarrow> 'a store \<Rightarrow> (unit, objects \<times> 'a store) outcome" where
  "assign_copy T this rhs vs s =
     (if this \<noteq> rhs then
        (let v = vs this; r = vs rhs in
         if size_f r > capacity_f (data_f v) then
           (case Vector_copy T r s of
              Throw e s1 \<Rightarrow> Throw e (vs, s1)
            | UB \<Rightarrow> UB
            | Ok new_vector s1 \<Rightarrow>
                (case Swap (v, new_vector) of
                   (v1, new_vector1) \<Rightarrow>
                     (case Vector_destroy new_vector1 s1 of
                        Ok _ s2 \<Rightarrow> Ok () (vs(this := v1\<lparr>size_f := size_f r\<rparr>), s2)
                      | _ \<Rightarrow> UB)))
         else
           (case copy_n T (buffer_f (data_f r)) 0 (min (size_f v) (size_f r))
                   (buffer_f (data_f v)) 0 s of
              Throw e s1 \<Rightarrow> Throw e (vs, s1)
            | UB \<Rightarrow> UB
            | Ok _ s1 \<Rightarrow>
                (case (if size_f v < size_f r then
                         (case (RawMemory_plus (data_f r) (size_f v),
                                RawMemory_plus (data_f v) (size_f v)) of
                            (Some (p, i), Some (q, j)) \<Rightarrow>
                              uninitialized_copy_n T p i (size_f r - size_f v) q j s1
                          | _ \<Rightarrow> UB)
                       else if size_f v > size_f r then
                         (case RawMemory_plus (data_f v) (size_f r) of
                            Some (q, j) \<Rightarrow> destroy_n q j (size_f v - size_f r) s1
                          | None \<Rightarrow> UB)
                       else Ok () s1) of
                   Throw e s2 \<Rightarrow> Throw e (vs, s2)
                 | UB \<Rightarrow> UB
                 | Ok _ s2 \<Rightarrow> Ok () (vs(this := v\<lparr>size_f := size_f r\<rparr>), s2))))
      else Ok () (vs, s))"


section \<open>What a Vector holds\<close>

text \<open>The live elements of \<open>v\<close>, in order: the first \<open>size_f v\<close> slots of its block.\<close>

definition elems :: "'a store \<Rightarrow> Vector \<Rightarrow> 'a list" where
  "elems s v =
     (case buffer_f (data_f v) of None \<Rightarrow> []
      | Some a \<Rightarrow> (case block s a of None \<Rightarrow> [] | Some b \<Rightarrow> map the (take (size_f v) b)))"

text \<open>
  A well-formed \<^verbatim>\<open>Vector<T>\<close>: its size is at most its capacity, and its buffer, when the
  capacity is not 0, is a block of the store with \<open>capacity\<close> slots, of which the first
  \<open>size\<close> hold live objects and the others are raw. An object has at least one byte, and
  the \<open>capacity\<close> objects of the block fit the address space.
\<close>

definition wf :: "'a elem_type \<Rightarrow> 'a store \<Rightarrow> Vector \<Rightarrow> bool" where
  "wf T s v =
     (0 < size_of T \<and> capacity_f (data_f v) * size_of T < 2 ^ 63 \<and>
      size_f v \<le> capacity_f (data_f v) \<and>
      (case buffer_f (data_f v) of None \<Rightarrow> capacity_f (data_f v) = 0
       | Some a \<Rightarrow>
           (case block s a of None \<Rightarrow> False
            | Some b \<Rightarrow>
                length b = capacity_f (data_f v) \<and>
                list_all (\<lambda>c. c \<noteq> None) (take (size_f v) b) \<and>
                list_all (\<lambda>c. c = None) (drop (size_f v) b))))"

subsection \<open>Element types and runs used as concrete inputs\<close>

text \<open>\<^verbatim>\<open>int\<close>, of 4 bytes: nothing throws and a moved-from object keeps its value.\<close>

definition plain_int :: "int elem_type" where
  "plain_int =
     \<lparr>size_of = 4, nothrow_move_constructible = True, copy_constructible = True,
      value_init = 0,
      moved_from = (\<lambda>x. x), throws = (\<lambda>_ _. False)\<rparr>"

definition empty_store :: "int store" where
  "empty_store = \<lparr>blocks = [], trace = [], leaked = []\<rparr>"

text \<open>\<^verbatim>\<open>Vector<int> c; c.PushBack(1); c.PushBack(2); c.PushBack(3);\<close>\<close>

definition pushed_123 :: "(unit, Vector \<times> int store) outcome" where
  "pushed_123 =
     (case PushBack_forward plain_int (RvalueRef 1) Vector_default empty_store of
        Ok _ (v1, s1) \<Rightarrow>
          (case PushBack_forward plain_int (RvalueRef 2) v1 s1 of
             Ok _ (v2, s2) \<Rightarrow> PushBack_forward plain_int (RvalueRef 3) v2 s2
           | Throw e vs \<Rightarrow> Throw e vs
           | UB \<Rightarrow> UB)
      | Throw e vs \<Rightarrow> Throw e vs
      | UB \<Rightarrow> UB)"

text \<open>
  The relocation rule as the specification words it: move construction if the move
  constructor of \<^verbatim>\<open>T\<close> never throws or \<^verbatim>\<open>T\<close> cannot be copied, copy construction otherwise.
  \<open>constructed_by c\<close> holds of every event but the call of a constructor other than \<open>c\<close>.
\<close>

definition relocation_ctor :: "'a elem_type \<Rightarrow> ctor" where
  "relocation_ctor T =
     (if nothrow_move_constructible T \<or> \<not> copy_constructible T then MoveCtor else CopyCtor)"

definition constructed_by :: "ctor \<Rightarrow> 'a event \<Rightarrow> bool" where
  "constructed_by c ev = (case ev of Constructed c' _ _ \<Rightarrow> c' = c | _ \<Rightarrow> True)"

definition events_since :: "'a store \<Rightarrow> 'a store \<Rightarrow> 'a event list" where
  "events_since s s' = drop (length (trace s)) (trace s')"

definition only_events :: "('a event \<Rightarrow> bool) \<Rightarrow> 'a store \<Rightarrow> 'a store \<Rightarrow> bool" where
  "only_events P s s' =
     (take (length (trace s)) (trace s') = trace s \<and> list_all P (events_since s s'))"

text \<open>The constructor calls between \<open>s\<close> and \<open>s'\<close>, in order.\<close>

definition is_construction :: "'a event \<Rightarrow> bool" where
  "is_construction ev = (case ev of Constructed _ _ _ \<Rightarrow> True | _ \<Rightarrow> False)"

definition constructions :: "'a store \<Rightarrow> 'a store \<Rightarrow> 'a event list" where
  "constructions s s' = filter is_construction (events_since s s')"

definition v123 :: Vector where
  "v123 = \<lparr>data_f = \<lparr>buffer_f = Some 2, capacity_f = 4\<rparr>, size_f = 3\<rparr>"

definition s123 :: "int store" where
  "s123 =
     \<lparr>blocks = [None, None, Some [Some 1, Some 2, Some 3, None]],
      trace =
        [OperatorNew 0 1, Constructed MoveCtor (Slot 0 0) 1,
         OperatorNew 1 2, Constructed MoveCtor (Slot 1 1) 2,
         Constructed MoveCtor (Slot 1 0) 1, Destroyed (Slot 0 0) 1, OperatorDelete 0,
         OperatorNew 2 4, Constructed MoveCtor (Slot 2 2) 3,
         Constructed MoveCtor (Slot 2 0) 1, Constructed MoveCtor (Slot 2 1) 2,
         Destroyed (Slot 1 0) 1, Destroyed (Slot 1 1) 2, OperatorDelete 1],
      leaked = []\<rparr>"

text \<open>The state in which a call is left, if it is left at all.\<close>

definition state_of :: "('r, 's) outcome \<Rightarrow> 's option" where
  "state_of out = (case out of Ok _ s \<Rightarrow> Some s | Throw _ s \<Rightarrow> Some s | UB \<Rightarrow> None)"

text \<open>
  \<open>frame A s s'\<close>: every block that exists in \<open>s\<close> and whose address is not in \<open>A\<close> is the
  same in \<open>s'\<close>, and no address of \<open>s\<close> has been given up.
\<close>

definition frame :: "addr set \<Rightarrow> 'a store \<Rightarrow> 'a store \<Rightarrow> bool" where
  "frame A s s' =
     (length (blocks s) \<le> length (blocks s') \<and>
      (\<forall>y<length (blocks s). y \<notin> A \<longrightarrow> block s' y = block s y))"

subsection \<open>Calls on one Vector\<close>

text \<open>\<^verbatim>\<open>v[index] = x;\<close> through \<^verbatim>\<open>operator[]\<close> and the copy assignment of \<open>T\<close>.\<close>

definition assign_element ::
  "'a elem_type \<Rightarrow> nat \<Rightarrow> 'a \<Rightarrow> Vector \<Rightarrow> 'a store \<Rightarrow> (unit, Vector \<times> 'a store) outcome" where
  "assign_element T index x v s =
     (case Vector_at v index of
        None \<Rightarrow> UB
      | Some (p, i) \<Rightarrow>
          (case assign_at T CopyAsg x p i s of
             Ok _ s1 \<Rightarrow> Ok () (v, s1)
           | Throw e s1 \<Rightarrow> Throw e (v, s1)
           | UB \<Rightarrow> UB))"

text \<open>The calls that change one Vector, and a sequence of them on the same Vector.\<close>

datatype 'a mutation =
    Do_PushBack "'a arg"
  | Do_PushBack_forward "'a arg"
  | Do_PopBack
  | Do_Reserve nat
  | Do_Resize nat
  | Do_Emplace nat "'a arg"
  | Do_Erase nat
  | Do_assign_element nat 'a

definition unit_result :: "('r, 's) outcome \<Rightarrow> (unit, 's) outcome" where
  "unit_result out = (case out of Ok _ s \<Rightarrow> Ok () s | Throw e s \<Rightarrow> Throw e s | UB \<Rightarrow> UB)"

fun mutate ::
  "'a elem_type \<Rightarrow> 'a mutation \<Rightarrow> Vector \<Rightarrow> 'a store \<Rightarrow> (unit, Vector \<times> 'a store) outcome" where
  "mutate T (Do_PushBack g) v s = PushBack T g v s"
| "mutate T (Do_PushBack_forward g) v s = PushBack_forward T g v s"
| "mutate T Do_PopBack v s = PopBack v s"
| "mutate T (Do_Reserve n) v s = Reserve T n v s"
| "mutate T (Do_Resize n) v s = Resize T n v s"
| "mutate T (Do_Emplace pos g) v s = unit_result (Emplace T pos g v s)"
| "mutate T (Do_Erase pos) v s = unit_result (Erase T pos v s)"
| "mutate T (Do_assign_element i x) v s = assign_element T i x v s"

text \<open>A sequence stops at the first call that throws or is undefined.\<close>

fun mutate_all ::
  "'a elem_type \<Rightarrow> 'a mutation list \<Rightarrow> Vector \<Rightarrow> 'a store \<Rightarrow> (unit, Vector \<times> 'a store) outcome" where
  "mutate_all T [] v s = Ok () (v, s)"
| "mutate_all T (m # ms) v s =
     (case mutate T m v s of
        Ok _ (v1, s1) \<Rightarrow> mutate_all T ms v1 s1
      | Throw e vs \<Rightarrow> Throw e vs
      | UB \<Rightarrow> UB)"

text \<open>
  \<open>touches_own v s v' s'\<close>: between \<open>(v, s)\<close> and \<open>(v', s')\<close> no block that existed in \<open>s\<close> has
  changed but the buffer of \<open>v\<close>, and the buffer of \<open>v'\<close> is that of \<open>v\<close> or a block that did
  not exist in \<open>s\<close>.
\<close>

definition touches_own :: "Vector \<Rightarrow> 'a store \<Rightarrow> Vector \<Rightarrow> 'a store \<Rightarrow> bool" where
  "touches_own v s v' s' =
     (frame (set_option (buffer_f (data_f v))) s s' \<and>
      (\<forall>y\<in>set_option (buffer_f (data_f v')).
          y \<in> set_option (buffer_f (data_f v)) \<or> length (blocks s) \<le> y))"

text \<open>\<^verbatim>\<open>Vector<int> copy(c);\<close> for the \<open>c\<close> of \<open>pushed_123\<close>: the new Vector and the store.\<close>

definition v123_copy :: Vector where
  "v123_copy = \<lparr>data_f = \<lparr>buffer_f = Some 3, capacity_f = 3\<rparr>, size_f = 3\<rparr>"

definition s123_copy :: "int store" where
  "s123_copy =
     s123\<lparr>blocks := blocks s123 @ [Some [Some 1, Some 2, Some 3]],
          trace := trace s123 @
            [OperatorNew 3 3, Constructed CopyCtor (Slot 3 0) 1,
             Constructed CopyCtor (Slot 3 1) 2, Constructed CopyCtor (Slot 3 2) 3]\<rparr>"

text \<open>
  Two Vector objects over \<open>two_blocks\<close>: object 0 holds 1, 2 in block 0, object 1 is empty
  with the capacity 2 of block 1.
\<close>

definition two_vectors :: objects where
  "two_vectors =
     (\<lambda>_. Vector_default)
       (0 := \<lparr>data_f = \<lparr>buffer_f = Some 0, capacity_f = 2\<rparr>, size_f = 2\<rparr>,
        1 := \<lparr>data_f = \<lparr>buffer_f = Some 1, capacity_f = 2\<rparr>, size_f = 0\<rparr>)"

section \<open>Evaluation on concrete inputs\<close>

lemma replicate_numeral: "replicate (numeral k) x = x # replicate (pred_numeral k) x"
  by (simp add: numeral_eq_Suc)

lemma destroy_n_numeral:
  "destroy_n p i (numeral k) s =
     (case destroy_at p i s of
        Ok _ s1 \<Rightarrow> destroy_n p (Suc i) (pred_numeral k) s1
      | Throw e s1 \<Rightarrow> Throw e s1
      | UB \<Rightarrow> UB)"
  by (simp add: numeral_eq_Suc)

lemma copy_loop_numeral:
  "copy_loop T p i q j k (numeral n) s =
     (case copy_construct T p (i + k) q (j + k) s of
        Ok _ s1 \<Rightarrow> copy_loop T p i q j (Suc k) (pred_numeral n) s1
      | Throw e s1 \<Rightarrow> (case destroy_n q j k s1 of Ok _ s2 \<Rightarrow> Throw e s2 | _ \<Rightarrow> UB)
      | UB \<Rightarrow> UB)"
  by (simp add: numeral_eq_Suc)

lemma move_loop_numeral:
  "move_loop T p i q j k (numeral n) s =
     (case move_construct T p (i + k) q (j + k) s of
        Ok _ s1 \<Rightarrow> move_loop T p i q j (Suc k) (pred_numeral n) s1
      | Throw e s1 \<Rightarrow> (case destroy_n q j k s1 of Ok _ s2 \<Rightarrow> Throw e s2 | _ \<Rightarrow> UB)
      | UB \<Rightarrow> UB)"
  by (simp add: numeral_eq_Suc)

lemma copy_n_numeral:
  "copy_n T p i (numeral n) q j s =
     (case copy_assign T p i q j s of
        Ok _ s1 \<Rightarrow> copy_n T p (Suc i) (pred_numeral n) q (Suc j) s1
      | Throw e s1 \<Rightarrow> Throw e s1
      | UB \<Rightarrow> UB)"
  by (simp add: numeral_eq_Suc)

lemma move_backward_loop_numeral:
  "move_backward_loop T p first (numeral n) d_last s =
     (if d_last = 0 then UB
      else case move_assign T p (first + pred_numeral n) p (d_last - 1) s of
        Ok _ s1 \<Rightarrow> move_backward_loop T p first (pred_numeral n) (d_last - 1) s1
      | Throw e s1 \<Rightarrow> Throw e s1
      | UB \<Rightarrow> UB)"
  by (simp add: numeral_eq_Suc)

lemmas eval_defs =
  plain_int_def empty_store_def pushed_123_def
  PushBack_def EmplaceBack_def Emplace_def EmplaceWithReallocate_def
  EmplaceWithoutReallocate_def PushBack_forward_def Reserve_def Insert_def
  Vector_copy_def Vector_move_def Vector_destroy_def Swap_def Vector_default_def
  Size_def Capacity_def SafeInitializedRawMemory_def to_int_def
  RawMemory_new_def RawMemory_default_def RawMemory_Swap_def RawMemory_move_def
  RawMemory_destroy_def RawMemory_at_def RawMemory_plus_def Allocate_def Deallocate_def
  uninitialized_move_n_def uninitialized_copy_n_def move_backward_def
  construct_from_def construct_temporary_def arg_value_def arg_ctor_def const_ref_def
  construct_at_def copy_construct_def move_construct_def destroy_at_def assign_at_def
  copy_assign_def move_assign_def operator_new_def operator_delete_def raises_def
  is_move_construction_def log_def put_def block_def object_def elems_def wf_def
  replicate_numeral destroy_n_numeral copy_loop_numeral move_loop_numeral copy_n_numeral
  move_backward_loop_numeral

lemma pushed_123_eq:
  "pushed_123 =
     Ok () (\<lparr>data_f = \<lparr>buffer_f = Some 2, capacity_f = 4\<rparr>, size_f = 3\<rparr>,
            \<lparr>blocks = [None, None, Some [Some 1, Some 2, Some 3, None]],
             trace =
               [OperatorNew 0 1, Constructed MoveCtor (Slot 0 0) 1,
                OperatorNew 1 2, Constructed MoveCtor (Slot 1 1) 2,
                Constructed MoveCtor (Slot 1 0) 1, Destroyed (Slot 0 0) 1, OperatorDelete 0,
                OperatorNew 2 4, Constructed MoveCtor (Slot 2 2) 3,
                Constructed MoveCtor (Slot 2 0) 1, Constructed MoveCtor (Slot 2 1) 2,
                Destroyed (Slot 1 0) 1, Destroyed (Slot 1 1) 2, OperatorDelete 1],
             leaked = []\<rparr>)"
  by (simp add: eval_defs)

section \<open>Move construction\<close>

text \<open>
  C1. Move-constructing a Vector from \<open>c\<close> gives the destination \<open>c\<close>'s storage and size,
  so that it holds \<open>c\<close>'s elements in order, and leaves \<open>c\<close> with a null buffer and
  capacity 0. The claim also says that \<open>c\<close> is left with \<^verbatim>\<open>Size() == 0\<close>. It is not:
  \<^verbatim>\<open>Vector(Vector&&)\<close> initialises \<^verbatim>\<open>size_\<close> from \<^verbatim>\<open>other.size_\<close> and never writes
  \<^verbatim>\<open>other.size_\<close>. After \<^verbatim>\<open>Vector<int> c\<close> with 1, 2, 3 pushed and \<^verbatim>\<open>Vector<int> d(std::move(c))\<close>,
  \<open>d\<close> holds 1, 2, 3 and \<open>c\<close> has a null buffer, capacity 0 and size 3.
\<close>

theorem move_constructor_leaves_source_size:
  "(case pushed_123 of
      Ok _ (c, s) \<Rightarrow>
        (case Vector_move c of
           (d, c') \<Rightarrow>
             elems s d = [1, 2, 3] \<and> Size d = 3 \<and> data_f d = data_f c \<and>
             buffer_f (data_f c') = None \<and> Capacity c' = 0 \<and> Size c' = 3)
    | _ \<Rightarrow> False)"
  by (simp add: pushed_123_eq) (simp add: eval_defs)

text \<open>
  C2. \<^verbatim>\<open>size <= capacity\<close> is not kept by every public operation: the Vector \<open>c\<close> above
  satisfies it (size 3, capacity 4), and after move construction from \<open>c\<close> the source has
  size 3 and capacity 0. Appending to it then reads three elements through a null
  pointer.
\<close>

theorem move_constructor_breaks_size_le_capacity:
  "(case pushed_123 of
      Ok _ (c, s) \<Rightarrow>
        wf plain_int s c \<and> Size c \<le> Capacity c \<and>
        (case Vector_move c of
           (d, c') \<Rightarrow>
             Size d \<le> Capacity d \<and> \<not> Size c' \<le> Capacity c' \<and>
             PushBack_forward plain_int (RvalueRef 4) c' s = UB)
    | _ \<Rightarrow> False)"
  by (simp add: pushed_123_eq) (simp add: eval_defs)

section \<open>Self-assignment\<close>

text \<open>
  C10. Copy assignment \<^verbatim>\<open>v = v\<close> and move assignment \<^verbatim>\<open>v = std::move(v)\<close> of the Vector
  at address \<open>this\<close> to itself return at once: every Vector object and the whole store
  (blocks, and the record of constructor and destructor calls) are as before.
\<close>

theorem self_assignment_changes_nothing:
  "assign_copy T this this vs s = Ok () (vs, s) \<and> assign_move this this vs = vs"
  by (simp add: assign_copy_def assign_move_def)

section \<open>The free store and the element life cycle\<close>

text \<open>
  What each primitive and each loop does to the blocks, to the record of events and to
  the leaked objects, under the conditions in which the Vector calls it.
\<close>

lemma block_put [simp]:
  "block (put a i c s) x = (if x = a then map_option (\<lambda>b. b[i := c]) (block s a) else block s x)"
  by (auto simp: block_def put_def)

lemma block_log [simp]: "block (log ev s) x = block s x"
  by (simp add: block_def log_def)

lemma blocks_log [simp]: "blocks (log ev s) = blocks s"
  by (simp add: log_def)

lemma trace_put [simp]: "trace (put a i c s) = trace s"
  by (simp add: put_def)

lemma leaked_put [simp]: "leaked (put a i c s) = leaked s"
  by (simp add: put_def)

lemma trace_log [simp]: "trace (log ev s) = trace s @ [ev]"
  by (simp add: log_def)

lemma leaked_log [simp]: "leaked (log ev s) = leaked s"
  by (simp add: log_def)

lemma length_blocks_put [simp]: "length (blocks (put a i c s)) = length (blocks s)"
  by (simp add: put_def)

lemma length_blocks_log [simp]: "length (blocks (log ev s)) = length (blocks s)"
  by (simp add: log_def)

lemma block_leaked_update [simp]: "block (s\<lparr>leaked := l\<rparr>) x = block s x"
  by (simp add: block_def)

lemma block_fresh: "block s (length (blocks s)) = None"
  by (simp add: block_def)

lemma block_Some_less: "block s a = Some b \<Longrightarrow> a < length (blocks s)"
  by (simp add: block_def split: if_splits)

lemma object_Some:
  "object s (Some a) i = Some x \<longleftrightarrow> (\<exists>b. block s a = Some b \<and> i < length b \<and> b ! i = Some x)"
  by (auto simp: object_def split: option.splits)

lemma object_None [simp]: "object s None i = None"
  by (simp add: object_def)

lemma less_of_mult_less:
  assumes "0 < (c::nat)" "n * c < b"
  shows "n < b"
  using assms by (cases c) auto

lemma operator_new_cases:
  assumes "0 < size_of T" "n * size_of T < 2 ^ 63"
  shows "(operator_new T (n * size_of T) s = Throw BadAlloc s \<and>
          \<not> (n < 2 ^ 63 \<and> never_throws T)) \<or>
   (\<exists>s'. operator_new T (n * size_of T) s = Ok (length (blocks s)) s' \<and> n < 2 ^ 63 \<and>
      (\<forall>x. block s' x = (if x = length (blocks s) then Some (replicate n None) else block s x)) \<and>
      trace s' = trace s @ [OperatorNew (length (blocks s)) n] \<and> leaked s' = leaked s \<and>
      length (blocks s') = Suc (length (blocks s)))"
proof -
  have "n < 2 ^ 63" using assms by (rule less_of_mult_less)
  then show ?thesis using assms
    by (auto simp: operator_new_def Let_def block_def nth_append never_throws_def)
qed

lemma operator_delete_cases:
  "block s a = Some b \<Longrightarrow>
   \<exists>s'. operator_delete (Some a) s = Ok () s' \<and>
      (\<forall>x. block s' x = (if x = a then None else block s x)) \<and>
      trace s' = trace s @ [OperatorDelete a] \<and>
      leaked s' = leaked s @ map the (filter (\<lambda>c. c \<noteq> None) b) \<and>
      length (blocks s') = length (blocks s)"
  by (auto simp: operator_delete_def block_def split: if_splits)

lemma construct_at_cases:
  assumes "block s a = Some b" "i < length b"
  shows "(construct_at T c x (Some a) i s = Throw ElementException s \<and> \<not> never_throws T \<and>
           \<not> (nothrow_move_constructible T \<and> c = MoveCtor)) \<or>
         (\<exists>s'. construct_at T c x (Some a) i s = Ok () s' \<and>
            (\<forall>y. block s' y = (if y = a then Some (b[i := Some x]) else block s y)) \<and>
            trace s' = trace s @ [Constructed c (Slot a i) x] \<and>
            leaked s' = leaked s @ (case b ! i of None \<Rightarrow> [] | Some y \<Rightarrow> [y]) \<and>
            length (blocks s') = length (blocks s))"
  using assms
  by (auto simp: construct_at_def raises_def is_move_construction_def never_throws_def)

lemma destroy_at_cases:
  assumes "block s a = Some b" "i < length b" "b ! i = Some x"
  shows "\<exists>s'. destroy_at (Some a) i s = Ok () s' \<and>
            (\<forall>y. block s' y = (if y = a then Some (b[i := None]) else block s y)) \<and>
            trace s' = trace s @ [Destroyed (Slot a i) x] \<and>
            leaked s' = leaked s \<and> length (blocks s') = length (blocks s)"
  using assms by (auto simp: destroy_at_def object_def)


lemma destroy_n_cases:
  assumes "block s a = Some b" "i + n \<le> length b" "\<forall>m<n. b ! (i + m) \<noteq> None"
  shows "\<exists>s' b'. destroy_n (Some a) i n s = Ok () s' \<and>
           (\<forall>y. block s' y = (if y = a then Some b' else block s y)) \<and> length b' = length b \<and>
           (\<forall>m<length b. b' ! m = (if i \<le> m \<and> m < i + n then None else b ! m)) \<and>
           trace s' = trace s @ map (\<lambda>m. Destroyed (Slot a m) (the (b ! m))) [i..<i + n] \<and>
           leaked s' = leaked s \<and> length (blocks s') = length (blocks s)"
  using assms
proof (induction n arbitrary: s b i)
  case 0
  then show ?case by (auto intro!: exI[of _ b])
next
  case (Suc n)
  from Suc.prems have il: "i < length b" and "b ! i \<noteq> None"
    using Suc.prems(3)[rule_format, of 0] by auto
  then obtain x where x: "b ! i = Some x" by auto
  from destroy_at_cases[OF Suc.prems(1) il x]
  obtain s1 where s1: "destroy_at (Some a) i s = Ok () s1"
    "\<forall>y. block s1 y = (if y = a then Some (b[i := None]) else block s y)"
    "trace s1 = trace s @ [Destroyed (Slot a i) x]" "leaked s1 = leaked s"
    "length (blocks s1) = length (blocks s)" by blast
  have b1: "block s1 a = Some (b[i := None])" using s1(2) by simp
  have l1: "Suc i + n \<le> length (b[i := None])" using Suc.prems(2) by simp
  have v1: "\<forall>m<n. b[i := None] ! (Suc i + m) \<noteq> None"
    using Suc.prems(3)[rule_format, of "Suc m" for m] by auto
  from Suc.IH[OF b1 l1 v1]
  obtain s' b' where r: "destroy_n (Some a) (Suc i) n s1 = Ok () s'"
    "\<forall>y. block s' y = (if y = a then Some b' else block s1 y)" "length b' = length (b[i := None])"
    "\<forall>m<length (b[i := None]). b' ! m = (if Suc i \<le> m \<and> m < Suc i + n then None else b[i := None] ! m)"
    "trace s' = trace s1 @ map (\<lambda>m. Destroyed (Slot a m) (the (b[i := None] ! m))) [Suc i..<Suc i + n]"
    "leaked s' = leaked s1" "length (blocks s') = length (blocks s1)" by blast
  have tr: "map (\<lambda>m. Destroyed (Slot a m) (the (b[i := None] ! m))) [Suc i..<Suc i + n]
          = map (\<lambda>m. Destroyed (Slot a m) (the (b ! m))) [Suc i..<Suc i + n]"
    by (rule map_cong) auto
  have "destroy_n (Some a) i (Suc n) s = Ok () s'" using s1(1) r(1) by simp
  moreover have "\<forall>y. block s' y = (if y = a then Some b' else block s y)" using r(2) s1(2) by simp
  moreover have "length b' = length b" using r(3) by simp
  moreover have "\<forall>m<length b. b' ! m = (if i \<le> m \<and> m < i + Suc n then None else b ! m)"
    using r(4) il by (auto simp: nth_list_update)
  moreover have "trace s' = trace s @ map (\<lambda>m. Destroyed (Slot a m) (the (b ! m))) [i..<i + Suc n]"
  proof -
    have up: "[i..<Suc (i + n)] = i # [Suc i..<Suc (i + n)]" by (rule upt_conv_Cons) simp
    show ?thesis using r(5) s1(3) tr x by (simp del: upt_Suc add: up)
  qed
  moreover have "leaked s' = leaked s" "length (blocks s') = length (blocks s)"
    using r s1 by simp_all
  ultimately show ?case by blast
qed


lemma upt_shift: "[k..<Suc (k + n)] = k # [Suc k..<Suc (k + n)]"
  by (rule upt_conv_Cons) simp

lemma copy_loop_cases:
  assumes "a \<noteq> q" "block s a = Some ba" "block s q = Some bq"
    and "i + k + n \<le> length ba" "j + k + n \<le> length bq"
    and "\<forall>m. k \<le> m \<and> m < k + n \<longrightarrow> ba ! (i + m) \<noteq> None"
    and "\<forall>m<k. bq ! (j + m) \<noteq> None"
    and "\<forall>m. k \<le> m \<and> m < k + n \<longrightarrow> bq ! (j + m) = None"
  shows "(\<exists>s' bq'. copy_loop T (Some a) i (Some q) j k n s = Ok () s' \<and>
            (\<forall>y. block s' y = (if y = q then Some bq' else block s y)) \<and> length bq' = length bq \<and>
            (\<forall>m<length bq. bq' ! m =
                (if j + k \<le> m \<and> m < j + k + n then ba ! (i + (m - j)) else bq ! m)) \<and>
            trace s' = trace s @
              map (\<lambda>m. Constructed CopyCtor (Slot q (j + m)) (the (ba ! (i + m)))) [k..<k + n] \<and>
            leaked s' = leaked s \<and> length (blocks s') = length (blocks s))
       \<or> (\<exists>s' bq' evs. copy_loop T (Some a) i (Some q) j k n s = Throw ElementException s' \<and>
            \<not> never_throws T \<and>
            (\<forall>y. block s' y = (if y = q then Some bq' else block s y)) \<and> length bq' = length bq \<and>
            (\<forall>m<length bq. bq' ! m = (if j \<le> m \<and> m < j + k then None else bq ! m)) \<and>
            trace s' = trace s @ evs \<and>
            list_all (\<lambda>ev. is_copy_construction ev \<or> is_destruction ev) evs \<and>
            leaked s' = leaked s \<and> length (blocks s') = length (blocks s))"
  using assms
proof (induction n arbitrary: s k bq)
  case 0
  then show ?case by (auto intro!: exI[of _ bq])
next
  case (Suc n)
  note ne = Suc.prems(1) and ba = Suc.prems(2) and bq = Suc.prems(3)
  from Suc.prems(6)[rule_format, of k] obtain x where x: "ba ! (i + k) = Some x" by auto
  have ik: "i + k < length ba" and jk: "j + k < length bq" using Suc.prems(4,5) by auto
  have rawk: "bq ! (j + k) = None" using Suc.prems(8)[rule_format, of k] by simp
  have obj: "object s (Some a) (i + k) = Some x" using ba ik x by (simp add: object_def)
  from construct_at_cases[OF bq jk, of T CopyCtor x]
  consider (thr) "construct_at T CopyCtor x (Some q) (j + k) s = Throw ElementException s"
      "\<not> never_throws T"
    | (ok) s1 where "construct_at T CopyCtor x (Some q) (j + k) s = Ok () s1"
      "\<forall>y. block s1 y = (if y = q then Some (bq[j + k := Some x]) else block s y)"
      "trace s1 = trace s @ [Constructed CopyCtor (Slot q (j + k)) x]"
      "leaked s1 = leaked s" "length (blocks s1) = length (blocks s)"
    using rawk by auto
  then show ?case
  proof cases
    case thr
    have l: "j + k \<le> length bq" using jk by simp
    from destroy_n_cases[OF bq l Suc.prems(7)]
    obtain s2 b2 where d: "destroy_n (Some q) j k s = Ok () s2"
      "\<forall>y. block s2 y = (if y = q then Some b2 else block s y)" "length b2 = length bq"
      "\<forall>m<length bq. b2 ! m = (if j \<le> m \<and> m < j + k then None else bq ! m)"
      "trace s2 = trace s @ map (\<lambda>m. Destroyed (Slot q m) (the (bq ! m))) [j..<j + k]"
      "leaked s2 = leaked s" "length (blocks s2) = length (blocks s)" by blast
    have "copy_loop T (Some a) i (Some q) j k (Suc n) s = Throw ElementException s2"
      using thr(1) d(1) obj by (simp add: copy_construct_def)
    moreover have "list_all (\<lambda>ev. is_copy_construction ev \<or> is_destruction ev)
        (map (\<lambda>m. Destroyed (Slot q m) (the (bq ! m))) [j..<j + k])"
      by (simp add: list_all_iff is_destruction_def)
    ultimately show ?thesis using d thr(2) by blast
  next
    case ok
    have ba1: "block s1 a = Some ba" using ok(2) ne ba by simp
    have bq1: "block s1 q = Some (bq[j + k := Some x])" using ok(2) by simp
    have p4: "i + Suc k + n \<le> length ba" using Suc.prems(4) by simp
    have p5: "j + Suc k + n \<le> length (bq[j + k := Some x])" using Suc.prems(5) by simp
    have p6: "\<forall>m. Suc k \<le> m \<and> m < Suc k + n \<longrightarrow> ba ! (i + m) \<noteq> None"
      using Suc.prems(6) by auto
    have p7: "\<forall>m<Suc k. bq[j + k := Some x] ! (j + m) \<noteq> None"
      using Suc.prems(7) jk by (auto simp: nth_list_update)
    have p8: "\<forall>m. Suc k \<le> m \<and> m < Suc k + n \<longrightarrow> bq[j + k := Some x] ! (j + m) = None"
      using Suc.prems(8) by (auto simp: nth_list_update)
    have step: "copy_loop T (Some a) i (Some q) j k (Suc n) s
        = copy_loop T (Some a) i (Some q) j (Suc k) n s1"
      using ok(1) obj by (simp add: copy_construct_def)
    from Suc.IH[OF ne ba1 bq1 p4 p5 p6 p7 p8]
    show ?thesis
    proof (elim disjE exE conjE)
      fix s' bq'
      assume r: "copy_loop T (Some a) i (Some q) j (Suc k) n s1 = Ok () s'"
        "\<forall>y. block s' y = (if y = q then Some bq' else block s1 y)"
        "length bq' = length (bq[j + k := Some x])"
        "\<forall>m<length (bq[j + k := Some x]). bq' ! m =
           (if j + Suc k \<le> m \<and> m < j + Suc k + n then ba ! (i + (m - j))
            else bq[j + k := Some x] ! m)"
        "trace s' = trace s1 @
           map (\<lambda>m. Constructed CopyCtor (Slot q (j + m)) (the (ba ! (i + m)))) [Suc k..<Suc k + n]"
        "leaked s' = leaked s1" "length (blocks s') = length (blocks s1)"
      have "\<forall>y. block s' y = (if y = q then Some bq' else block s y)" using r(2) ok(2) by simp
      moreover have "length bq' = length bq" using r(3) by simp
      moreover have "\<forall>m<length bq. bq' ! m =
          (if j + k \<le> m \<and> m < j + k + Suc n then ba ! (i + (m - j)) else bq ! m)"
        using r(4) x jk by (auto simp: nth_list_update)
      moreover have "trace s' = trace s @
          map (\<lambda>m. Constructed CopyCtor (Slot q (j + m)) (the (ba ! (i + m)))) [k..<k + Suc n]"
        using r(5) ok(3) x by (simp del: upt_Suc add: upt_shift)
      moreover have "leaked s' = leaked s" "length (blocks s') = length (blocks s)"
        using r ok by simp_all
      ultimately show ?thesis using step r(1) by auto
    next
      fix s' bq' evs
      assume r: "copy_loop T (Some a) i (Some q) j (Suc k) n s1 = Throw ElementException s'"
        "\<not> never_throws T"
        "\<forall>y. block s' y = (if y = q then Some bq' else block s1 y)"
        "length bq' = length (bq[j + k := Some x])"
        "\<forall>m<length (bq[j + k := Some x]). bq' ! m =
           (if j \<le> m \<and> m < j + Suc k then None else bq[j + k := Some x] ! m)"
        "trace s' = trace s1 @ evs"
        "list_all (\<lambda>ev. is_copy_construction ev \<or> is_destruction ev) evs"
        "leaked s' = leaked s1" "length (blocks s') = length (blocks s1)"
      have "\<forall>y. block s' y = (if y = q then Some bq' else block s y)" using r(3) ok(2) by simp
      moreover have "length bq' = length bq" using r(4) by simp
      moreover have "\<forall>m<length bq. bq' ! m = (if j \<le> m \<and> m < j + k then None else bq ! m)"
        using r(5) rawk jk by (auto simp: nth_list_update)
      moreover have "trace s' = trace s @ (Constructed CopyCtor (Slot q (j + k)) x # evs)"
        using r(6) ok(3) by simp
      moreover have "list_all (\<lambda>ev. is_copy_construction ev \<or> is_destruction ev)
          (Constructed CopyCtor (Slot q (j + k)) x # evs)"
        using r(7) by (simp add: is_copy_construction_def)
      moreover have "leaked s' = leaked s" "length (blocks s') = length (blocks s)"
        using r ok by simp_all
      moreover have "copy_loop T (Some a) i (Some q) j k (Suc n) s = Throw ElementException s'"
        using step r(1) by simp
      moreover have "\<not> never_throws T" using r(2) by blast
      ultimately show ?thesis
        apply -
        apply (rule disjI2)
        apply (rule exI[of _ s'], rule exI[of _ bq'])
        apply (rule exI[of _ "Constructed CopyCtor (Slot q (j + k)) x # evs"])
        apply (intro conjI; assumption)
        done
    qed
  qed
qed


lemma move_construct_cases:
  assumes "a \<noteq> q" "block s a = Some ba" "i < length ba" "ba ! i = Some x"
    and "block s q = Some bq" "j < length bq" "bq ! j = None"
  shows "(move_construct T (Some a) i (Some q) j s = Throw ElementException s \<and>
            \<not> never_throws T \<and> \<not> nothrow_move_constructible T) \<or>
         (\<exists>s'. move_construct T (Some a) i (Some q) j s = Ok () s' \<and>
            (\<forall>y. block s' y =
               (if y = q then Some (bq[j := Some x])
                else if y = a then Some (ba[i := Some (moved_from T x)]) else block s y)) \<and>
            trace s' = trace s @ [Constructed MoveCtor (Slot q j) x] \<and>
            leaked s' = leaked s \<and> length (blocks s') = length (blocks s))"
proof -
  have obj: "object s (Some a) i = Some x" using assms by (simp add: object_def)
  from construct_at_cases[OF assms(5,6), of T MoveCtor x]
  consider (thr) "construct_at T MoveCtor x (Some q) j s = Throw ElementException s"
      "\<not> never_throws T" "\<not> nothrow_move_constructible T"
    | (ok) s1 where "construct_at T MoveCtor x (Some q) j s = Ok () s1"
      "\<forall>y. block s1 y = (if y = q then Some (bq[j := Some x]) else block s y)"
      "trace s1 = trace s @ [Constructed MoveCtor (Slot q j) x]"
      "leaked s1 = leaked s" "length (blocks s1) = length (blocks s)"
    using assms(7) by auto
  then show ?thesis
  proof cases
    case thr
    then show ?thesis using obj by (simp add: move_construct_def)
  next
    case ok
    let ?s' = "put a i (Some (moved_from T x)) s1"
    have m: "move_construct T (Some a) i (Some q) j s = Ok () ?s'"
      using ok(1) obj by (simp add: move_construct_def)
    have "block s1 a = Some ba" using ok(2) assms(1,2) by simp
    then have b: "\<forall>y. block ?s' y =
               (if y = q then Some (bq[j := Some x])
                else if y = a then Some (ba[i := Some (moved_from T x)]) else block s y)"
      using ok(2) assms(1) by simp
    have t: "trace ?s' = trace s @ [Constructed MoveCtor (Slot q j) x]" using ok(3) by simp
    have l: "leaked ?s' = leaked s" "length (blocks ?s') = length (blocks s)"
      using ok(4,5) by simp_all
    show ?thesis
      apply (rule disjI2)
      apply (rule exI[of _ ?s'])
      using m b t l by blast
  qed
qed

lemma move_loop_cases:
  assumes "a \<noteq> q" "block s a = Some ba" "block s q = Some bq"
    and "i + k + n \<le> length ba" "j + k + n \<le> length bq"
    and "\<forall>m. k \<le> m \<and> m < k + n \<longrightarrow> ba ! (i + m) \<noteq> None"
    and "\<forall>m<k. bq ! (j + m) \<noteq> None"
    and "\<forall>m. k \<le> m \<and> m < k + n \<longrightarrow> bq ! (j + m) = None"
  shows "(\<exists>s' bq' ba'. move_loop T (Some a) i (Some q) j k n s = Ok () s' \<and>
            (\<forall>y. block s' y =
               (if y = q then Some bq' else if y = a then Some ba' else block s y)) \<and>
            length bq' = length bq \<and> length ba' = length ba \<and>
            (\<forall>m<length bq. bq' ! m =
                (if j + k \<le> m \<and> m < j + k + n then ba ! (i + (m - j)) else bq ! m)) \<and>
            (\<forall>m<length ba. ba' ! m =
                (if i + k \<le> m \<and> m < i + k + n then Some (moved_from T (the (ba ! m)))
                 else ba ! m)) \<and>
            trace s' = trace s @
              map (\<lambda>m. Constructed MoveCtor (Slot q (j + m)) (the (ba ! (i + m)))) [k..<k + n] \<and>
            leaked s' = leaked s \<and> length (blocks s') = length (blocks s))
       \<or> (\<exists>s' bq' ba' evs. move_loop T (Some a) i (Some q) j k n s = Throw ElementException s' \<and>
            \<not> never_throws T \<and> \<not> nothrow_move_constructible T \<and>
            (\<forall>y. block s' y =
               (if y = q then Some bq' else if y = a then Some ba' else block s y)) \<and>
            length bq' = length bq \<and> length ba' = length ba \<and>
            (\<forall>m<length bq. bq' ! m = (if j \<le> m \<and> m < j + k then None else bq ! m)) \<and>
            (\<forall>m<length ba. (ba ! m = None) = (ba' ! m = None)) \<and>
            trace s' = trace s @ evs \<and>
            list_all (\<lambda>ev. is_move_construction ev \<or> is_destruction ev) evs \<and>
            leaked s' = leaked s \<and> length (blocks s') = length (blocks s))"
  using assms
proof (induction n arbitrary: s k bq ba)
  case 0
  show ?case
    apply (rule disjI1)
    apply (rule exI[of _ s], rule exI[of _ bq], rule exI[of _ ba])
    using 0 by auto
next
  case (Suc n)
  note ne = Suc.prems(1) and ba = Suc.prems(2) and bq = Suc.prems(3)
  from Suc.prems(6)[rule_format, of k] obtain x where x: "ba ! (i + k) = Some x" by auto
  have ik: "i + k < length ba" and jk: "j + k < length bq" using Suc.prems(4,5) by auto
  have rawk: "bq ! (j + k) = None" using Suc.prems(8)[rule_format, of k] by simp
  from move_construct_cases[OF ne ba ik x bq jk rawk, of T]
  consider (thr) "move_construct T (Some a) (i + k) (Some q) (j + k) s = Throw ElementException s"
      "\<not> never_throws T" "\<not> nothrow_move_constructible T"
    | (ok) s1 where "move_construct T (Some a) (i + k) (Some q) (j + k) s = Ok () s1"
      "\<forall>y. block s1 y =
         (if y = q then Some (bq[j + k := Some x])
          else if y = a then Some (ba[i + k := Some (moved_from T x)]) else block s y)"
      "trace s1 = trace s @ [Constructed MoveCtor (Slot q (j + k)) x]"
      "leaked s1 = leaked s" "length (blocks s1) = length (blocks s)"
    by blast
  then show ?case
  proof cases
    case thr
    have l: "j + k \<le> length bq" using jk by simp
    from destroy_n_cases[OF bq l Suc.prems(7)]
    obtain s2 b2 where d: "destroy_n (Some q) j k s = Ok () s2"
      "\<forall>y. block s2 y = (if y = q then Some b2 else block s y)" "length b2 = length bq"
      "\<forall>m<length bq. b2 ! m = (if j \<le> m \<and> m < j + k then None else bq ! m)"
      "trace s2 = trace s @ map (\<lambda>m. Destroyed (Slot q m) (the (bq ! m))) [j..<j + k]"
      "leaked s2 = leaked s" "length (blocks s2) = length (blocks s)" by blast
    have "move_loop T (Some a) i (Some q) j k (Suc n) s = Throw ElementException s2"
      using thr(1) d(1) by simp
    moreover have "list_all (\<lambda>ev. is_move_construction ev \<or> is_destruction ev)
        (map (\<lambda>m. Destroyed (Slot q m) (the (bq ! m))) [j..<j + k])"
      by (simp add: list_all_iff is_destruction_def)
    moreover have "\<forall>y. block s2 y = (if y = q then Some b2 else if y = a then Some ba else block s y)"
      using d(2) ba by auto
    moreover have "\<forall>m<length ba. (ba ! m = None) = (ba ! m = None)" by simp
    moreover have "length ba = length ba" by simp
    ultimately show ?thesis using d(3-) thr(2,3)
      apply -
      apply (rule disjI2)
      apply (rule exI[of _ s2], rule exI[of _ b2], rule exI[of _ ba])
      apply (rule exI[of _ "map (\<lambda>m. Destroyed (Slot q m) (the (bq ! m))) [j..<j + k]"])
      apply (intro conjI; assumption)
      done
  next
    case ok
    let ?ba1 = "ba[i + k := Some (moved_from T x)]"
    let ?bq1 = "bq[j + k := Some x]"
    have ba1: "block s1 a = Some ?ba1" using ok(2) ne by simp
    have bq1: "block s1 q = Some ?bq1" using ok(2) by simp
    have p4: "i + Suc k + n \<le> length ?ba1" using Suc.prems(4) by simp
    have p5: "j + Suc k + n \<le> length ?bq1" using Suc.prems(5) by simp
    have p6: "\<forall>m. Suc k \<le> m \<and> m < Suc k + n \<longrightarrow> ?ba1 ! (i + m) \<noteq> None"
      using Suc.prems(6) by (auto simp: nth_list_update)
    have p7: "\<forall>m<Suc k. ?bq1 ! (j + m) \<noteq> None"
      using Suc.prems(7) jk by (auto simp: nth_list_update)
    have p8: "\<forall>m. Suc k \<le> m \<and> m < Suc k + n \<longrightarrow> ?bq1 ! (j + m) = None"
      using Suc.prems(8) by (auto simp: nth_list_update)
    have step: "move_loop T (Some a) i (Some q) j k (Suc n) s
        = move_loop T (Some a) i (Some q) j (Suc k) n s1"
      using ok(1) by simp
    from Suc.IH[OF ne ba1 bq1 p4 p5 p6 p7 p8]
    show ?thesis
    proof (elim disjE exE conjE)
      fix s' bq' ba'
      assume r: "move_loop T (Some a) i (Some q) j (Suc k) n s1 = Ok () s'"
        "\<forall>y. block s' y = (if y = q then Some bq' else if y = a then Some ba' else block s1 y)"
        "length bq' = length ?bq1" "length ba' = length ?ba1"
        "\<forall>m<length ?bq1. bq' ! m =
           (if j + Suc k \<le> m \<and> m < j + Suc k + n then ?ba1 ! (i + (m - j)) else ?bq1 ! m)"
        "\<forall>m<length ?ba1. ba' ! m =
           (if i + Suc k \<le> m \<and> m < i + Suc k + n then Some (moved_from T (the (?ba1 ! m)))
            else ?ba1 ! m)"
        "trace s' = trace s1 @
           map (\<lambda>m. Constructed MoveCtor (Slot q (j + m)) (the (?ba1 ! (i + m)))) [Suc k..<Suc k + n]"
        "leaked s' = leaked s1" "length (blocks s') = length (blocks s1)"
      have tr: "map (\<lambda>m. Constructed MoveCtor (Slot q (j + m)) (the (?ba1 ! (i + m)))) [Suc k..<Suc k + n]
          = map (\<lambda>m. Constructed MoveCtor (Slot q (j + m)) (the (ba ! (i + m)))) [Suc k..<Suc k + n]"
        by (rule map_cong) auto
      have "\<forall>y. block s' y = (if y = q then Some bq' else if y = a then Some ba' else block s y)"
        using r(2) ok(2) by simp
      moreover have "length bq' = length bq" "length ba' = length ba" using r(3,4) by simp_all
      moreover have "\<forall>m<length bq. bq' ! m =
          (if j + k \<le> m \<and> m < j + k + Suc n then ba ! (i + (m - j)) else bq ! m)"
        using r(5) x jk by (auto simp: nth_list_update)
      moreover have "\<forall>m<length ba. ba' ! m =
          (if i + k \<le> m \<and> m < i + k + Suc n then Some (moved_from T (the (ba ! m))) else ba ! m)"
      proof (intro allI impI)
        fix m assume m: "m < length ba"
        with r(6) have e: "ba' ! m =
           (if i + Suc k \<le> m \<and> m < i + Suc k + n then Some (moved_from T (the (?ba1 ! m)))
            else ?ba1 ! m)" by simp
        show "ba' ! m =
          (if i + k \<le> m \<and> m < i + k + Suc n then Some (moved_from T (the (ba ! m))) else ba ! m)"
        proof (cases "m = i + k")
          case True
          then show ?thesis using e x m by simp
        next
          case False
          then have "(i + Suc k \<le> m \<and> m < i + Suc k + n) = (i + k \<le> m \<and> m < i + k + Suc n)"
            by auto
          then show ?thesis using e False by simp
        qed
      qed
      moreover have "trace s' = trace s @
          map (\<lambda>m. Constructed MoveCtor (Slot q (j + m)) (the (ba ! (i + m)))) [k..<k + Suc n]"
        using r(7) ok(3) x tr by (simp del: upt_Suc add: upt_shift)
      moreover have "leaked s' = leaked s" "length (blocks s') = length (blocks s)"
        using r ok by simp_all
      moreover have "move_loop T (Some a) i (Some q) j k (Suc n) s = Ok () s'"
        using step r(1) by simp
      ultimately show ?thesis
        apply -
        apply (rule disjI1)
        apply (rule exI[of _ s'], rule exI[of _ bq'], rule exI[of _ ba'])
        apply (intro conjI; assumption)
        done
    next
      fix s' bq' ba' evs
      assume r: "move_loop T (Some a) i (Some q) j (Suc k) n s1 = Throw ElementException s'"
        "\<not> never_throws T" "\<not> nothrow_move_constructible T"
        "\<forall>y. block s' y = (if y = q then Some bq' else if y = a then Some ba' else block s1 y)"
        "length bq' = length ?bq1" "length ba' = length ?ba1"
        "\<forall>m<length ?bq1. bq' ! m = (if j \<le> m \<and> m < j + Suc k then None else ?bq1 ! m)"
        "\<forall>m<length ?ba1. (?ba1 ! m = None) = (ba' ! m = None)"
        "trace s' = trace s1 @ evs"
        "list_all (\<lambda>ev. is_move_construction ev \<or> is_destruction ev) evs"
        "leaked s' = leaked s1" "length (blocks s') = length (blocks s1)"
      have "\<forall>y. block s' y = (if y = q then Some bq' else if y = a then Some ba' else block s y)"
        using r(4) ok(2) by simp
      moreover have "length bq' = length bq" "length ba' = length ba" using r(5,6) by simp_all
      moreover have "\<forall>m<length bq. bq' ! m = (if j \<le> m \<and> m < j + k then None else bq ! m)"
        using r(7) rawk jk by (auto simp: nth_list_update)
      moreover have "\<forall>m<length ba. (ba ! m = None) = (ba' ! m = None)"
      proof (intro allI impI)
        fix m assume m: "m < length ba"
        with r(8) have e: "(?ba1 ! m = None) = (ba' ! m = None)" by simp
        show "(ba ! m = None) = (ba' ! m = None)"
        proof (cases "m = i + k")
          case True
          then show ?thesis using e x m by simp
        next
          case False
          then show ?thesis using e m by simp
        qed
      qed
      moreover have "trace s' = trace s @ (Constructed MoveCtor (Slot q (j + k)) x # evs)"
        using r(9) ok(3) by simp
      moreover have "list_all (\<lambda>ev. is_move_construction ev \<or> is_destruction ev)
          (Constructed MoveCtor (Slot q (j + k)) x # evs)"
        using r(10) by (simp add: is_move_construction_def)
      moreover have "leaked s' = leaked s" "length (blocks s') = length (blocks s)"
        using r ok by simp_all
      moreover have "move_loop T (Some a) i (Some q) j k (Suc n) s = Throw ElementException s'"
        using step r(1) by simp
      moreover have "\<not> never_throws T" using r(2) by blast
      ultimately show ?thesis using r(3)
        apply -
        apply (rule disjI2)
        apply (rule exI[of _ s'], rule exI[of _ bq'], rule exI[of _ ba'])
        apply (rule exI[of _ "Constructed MoveCtor (Slot q (j + k)) x # evs"])
        apply (intro conjI; assumption)
        done
    qed
  qed
qed

lemma constructed_by_move: "is_move_construction ev \<Longrightarrow> constructed_by MoveCtor ev"
  by (cases ev) (auto simp: is_move_construction_def constructed_by_def split: ctor.splits)

lemma constructed_by_copy: "is_copy_construction ev \<Longrightarrow> constructed_by CopyCtor ev"
  by (cases ev) (auto simp: is_copy_construction_def constructed_by_def split: ctor.splits)

lemma constructed_by_destruction: "is_destruction ev \<Longrightarrow> constructed_by c ev"
  by (cases ev) (auto simp: is_destruction_def constructed_by_def)

lemma only_eventsI:
  "trace s' = trace s @ evs \<Longrightarrow> list_all P evs \<Longrightarrow> only_events P s s'"
  by (simp add: only_events_def events_since_def)

lemma only_events_trans:
  "only_events P s s1 \<Longrightarrow> only_events P s1 s2 \<Longrightarrow> only_events P s s2"
proof -
  assume a: "only_events P s s1" "only_events P s1 s2"
  from a(1) have 1: "trace s1 = trace s @ events_since s s1" "list_all P (events_since s s1)"
    unfolding only_events_def events_since_def by (metis append_take_drop_id)+
  from a(2) have 2: "trace s2 = trace s1 @ events_since s1 s2" "list_all P (events_since s1 s2)"
    unfolding only_events_def events_since_def by (metis append_take_drop_id)+
  have "trace s2 = trace s @ (events_since s s1 @ events_since s1 s2)" using 1 2 by simp
  moreover have "list_all P (events_since s s1 @ events_since s1 s2)" using 1 2 by simp
  ultimately show ?thesis by (rule only_eventsI)
qed

lemma only_events_refl: "only_events P s s"
  by (simp add: only_events_def events_since_def)


lemma wf_SomeD:
  assumes "wf T s v" "buffer_f (data_f v) = Some a"
  shows "\<exists>b. block s a = Some b \<and> length b = capacity_f (data_f v) \<and>
           size_f v \<le> capacity_f (data_f v) \<and> capacity_f (data_f v) < 2 ^ 63 \<and>
           (\<forall>m<size_f v. b ! m \<noteq> None) \<and> (\<forall>m<length b. size_f v \<le> m \<longrightarrow> b ! m = None) \<and>
           0 < size_of T \<and> capacity_f (data_f v) * size_of T < 2 ^ 63"
proof -
  from assms have sz: "0 < size_of T" "capacity_f (data_f v) * size_of T < 2 ^ 63"
    by (simp_all add: wf_def)
  from sz have "capacity_f (data_f v) < 2 ^ 63" by (rule less_of_mult_less)
  with assms obtain b where b: "block s a = Some b" "length b = capacity_f (data_f v)"
    "size_f v \<le> capacity_f (data_f v)" "capacity_f (data_f v) < 2 ^ 63"
    "list_all (\<lambda>c. c \<noteq> None) (take (size_f v) b)" "list_all (\<lambda>c. c = None) (drop (size_f v) b)"
    by (auto simp: wf_def split: option.splits)
  have "\<forall>m<size_f v. b ! m \<noteq> None"
    using b(2,3,5) by (auto simp: list_all_length)
  moreover have "\<forall>m<length b. size_f v \<le> m \<longrightarrow> b ! m = None"
  proof (intro allI impI)
    fix m assume m: "m < length b" "size_f v \<le> m"
    then have "m - size_f v < length (drop (size_f v) b)" by simp
    with b(6) have "drop (size_f v) b ! (m - size_f v) = None" by (simp add: list_all_length)
    then show "b ! m = None" using m by simp
  qed
  ultimately show ?thesis using b sz by blast
qed

lemma wf_NoneD:
  assumes "wf T s v" "buffer_f (data_f v) = None"
  shows "capacity_f (data_f v) = 0 \<and> size_f v = 0"
  using assms by (auto simp: wf_def)

lemma wfI:
  assumes "buffer_f (data_f v) = Some a" "block s a = Some b" "length b = capacity_f (data_f v)"
    "size_f v \<le> capacity_f (data_f v)" "capacity_f (data_f v) * size_of T < 2 ^ 63"
    "\<forall>m<size_f v. b ! m \<noteq> None" "\<forall>m<length b. size_f v \<le> m \<longrightarrow> b ! m = None"
    "0 < size_of T"
  shows "wf T s v"
proof -
  have "list_all (\<lambda>c. c \<noteq> None) (take (size_f v) b)"
    using assms(3,4,6) by (auto simp: list_all_length)
  moreover have "list_all (\<lambda>c. c = None) (drop (size_f v) b)"
    using assms(7) by (auto simp: list_all_length)
  ultimately show ?thesis using assms(1-5,8) by (simp add: wf_def)
qed

lemma elems_Some:
  "buffer_f (data_f v) = Some a \<Longrightarrow> block s a = Some b \<Longrightarrow> elems s v = map the (take (size_f v) b)"
  by (simp add: elems_def)

lemma take_eqI:
  assumes "n \<le> length xs" "n \<le> length ys" "\<forall>m<n. xs ! m = ys ! m"
  shows "take n xs = take n ys"
  using assms by (intro nth_take_lemma) auto

lemma SafeInitializedRawMemory_0 [simp]: "SafeInitializedRawMemory T p i 0 q j s = Ok () s"
  by (simp add: SafeInitializedRawMemory_def uninitialized_move_n_def uninitialized_copy_n_def)

lemma SafeInitializedRawMemory_cases:
  assumes "a \<noteq> q" "block s a = Some ba" "block s q = Some bq"
    and "i + n \<le> length ba" "j + n \<le> length bq"
    and "\<forall>m<n. ba ! (i + m) \<noteq> None" "\<forall>m<n. bq ! (j + m) = None"
  shows "(\<exists>s' bq' ba'. SafeInitializedRawMemory T (Some a) i n (Some q) j s = Ok () s' \<and>
            (\<forall>y. block s' y =
               (if y = q then Some bq' else if y = a then Some ba' else block s y)) \<and>
            length bq' = length bq \<and> length ba' = length ba \<and>
            (\<forall>m<length bq. bq' ! m =
                (if j \<le> m \<and> m < j + n then ba ! (i + (m - j)) else bq ! m)) \<and>
            (\<forall>m<length ba. (ba ! m = None) = (ba' ! m = None)) \<and>
            trace s' = trace s @
              map (\<lambda>m. Constructed
                     (if nothrow_move_constructible T \<or> \<not> copy_constructible T
                      then MoveCtor else CopyCtor)
                     (Slot q (j + m)) (the (ba ! (i + m)))) [0..<n] \<and>
            leaked s' = leaked s \<and> length (blocks s') = length (blocks s) \<and>
            (\<forall>m<length ba. \<not> (i \<le> m \<and> m < i + n) \<longrightarrow> ba' ! m = ba ! m))
       \<or> (\<exists>s' ba' evs. SafeInitializedRawMemory T (Some a) i n (Some q) j s =
              Throw ElementException s' \<and>
            \<not> never_throws T \<and> \<not> nothrow_move_constructible T \<and>
            (\<forall>y. block s' y = (if y = a then Some ba' else block s y)) \<and>
            length ba' = length ba \<and>
            (\<forall>m<length ba. (ba ! m = None) = (ba' ! m = None)) \<and>
            (copy_constructible T \<longrightarrow> ba' = ba) \<and>
            trace s' = trace s @ evs \<and>
            list_all (\<lambda>ev. (if nothrow_move_constructible T \<or> \<not> copy_constructible T
                             then is_move_construction ev else is_copy_construction ev)
                            \<or> is_destruction ev) evs \<and>
            leaked s' = leaked s \<and> length (blocks s') = length (blocks s))"
proof (cases "nothrow_move_constructible T \<or> \<not> copy_constructible T")
  case True
  then have eq: "SafeInitializedRawMemory T (Some a) i n (Some q) j s
      = move_loop T (Some a) i (Some q) j 0 n s"
    by (simp add: SafeInitializedRawMemory_def uninitialized_move_n_def)
  have *: "i + 0 + n \<le> length ba" "j + 0 + n \<le> length bq"
    "\<forall>m. 0 \<le> m \<and> m < 0 + n \<longrightarrow> ba ! (i + m) \<noteq> None"
    "\<forall>m<0. bq ! (j + m) \<noteq> None"
    "\<forall>m. 0 \<le> m \<and> m < 0 + n \<longrightarrow> bq ! (j + m) = None"
    using assms by auto
  from move_loop_cases[OF assms(1,2,3) *, of T]
  show ?thesis
  proof (elim disjE exE conjE)
    fix s' bq' ba'
    assume r: "move_loop T (Some a) i (Some q) j 0 n s = Ok () s'"
      "\<forall>y. block s' y = (if y = q then Some bq' else if y = a then Some ba' else block s y)"
      "length bq' = length bq" "length ba' = length ba"
      "\<forall>m<length bq. bq' ! m = (if j + 0 \<le> m \<and> m < j + 0 + n then ba ! (i + (m - j)) else bq ! m)"
      "\<forall>m<length ba. ba' ! m =
         (if i + 0 \<le> m \<and> m < i + 0 + n then Some (moved_from T (the (ba ! m))) else ba ! m)"
      "trace s' = trace s @
         map (\<lambda>m. Constructed MoveCtor (Slot q (j + m)) (the (ba ! (i + m)))) [0..<0 + n]"
      "leaked s' = leaked s" "length (blocks s') = length (blocks s)"
    have live: "\<forall>m<length ba. (ba ! m = None) = (ba' ! m = None)"
    proof (intro allI impI)
      fix m assume m: "m < length ba"
      show "(ba ! m = None) = (ba' ! m = None)"
      proof (cases "i \<le> m \<and> m < i + n")
        case True
        then have "ba ! (i + (m - i)) \<noteq> None" using assms(6) by (metis add_diff_inverse_nat less_diff_conv2 not_less add.commute)
        then show ?thesis using r(6) m True by simp
      next
        case False
        then show ?thesis using r(6) m by auto
      qed
    qed
    have "SafeInitializedRawMemory T (Some a) i n (Some q) j s = Ok () s'" using eq r(1) by simp
    moreover have "\<forall>m<length bq. bq' ! m =
                (if j \<le> m \<and> m < j + n then ba ! (i + (m - j)) else bq ! m)" using r(5) by simp
    moreover have "trace s' = trace s @
              map (\<lambda>m. Constructed
                     (if nothrow_move_constructible T \<or> \<not> copy_constructible T
                      then MoveCtor else CopyCtor)
                     (Slot q (j + m)) (the (ba ! (i + m)))) [0..<n]"
      using r(7) True by simp
    moreover have "\<forall>m<length ba. \<not> (i \<le> m \<and> m < i + n) \<longrightarrow> ba' ! m = ba ! m"
      using r(6) by simp
    ultimately show ?thesis using r(2,3,4,8,9) live
      apply -
      apply (rule disjI1)
      apply (rule exI[of _ s'], rule exI[of _ bq'], rule exI[of _ ba'])
      apply (intro conjI; assumption)
      done
  next
    fix s' bq' ba' evs
    assume r: "move_loop T (Some a) i (Some q) j 0 n s = Throw ElementException s'"
      "\<not> never_throws T" "\<not> nothrow_move_constructible T"
      "\<forall>y. block s' y = (if y = q then Some bq' else if y = a then Some ba' else block s y)"
      "length bq' = length bq" "length ba' = length ba"
      "\<forall>m<length bq. bq' ! m = (if j \<le> m \<and> m < j + 0 then None else bq ! m)"
      "\<forall>m<length ba. (ba ! m = None) = (ba' ! m = None)"
      "trace s' = trace s @ evs"
      "list_all (\<lambda>ev. is_move_construction ev \<or> is_destruction ev) evs"
      "leaked s' = leaked s" "length (blocks s') = length (blocks s)"
    have "bq' = bq" using r(5,7) by (intro nth_equalityI) auto
    then have b: "\<forall>y. block s' y = (if y = a then Some ba' else block s y)"
      using r(4) assms(1,3) by auto
    have "SafeInitializedRawMemory T (Some a) i n (Some q) j s = Throw ElementException s'"
      using eq r(1) by simp
    moreover have "\<not> never_throws T" using r(2) by blast
    moreover have "copy_constructible T \<longrightarrow> ba' = ba" using True r(3) by simp
    moreover have "list_all (\<lambda>ev. (if nothrow_move_constructible T \<or> \<not> copy_constructible T
                             then is_move_construction ev else is_copy_construction ev)
                            \<or> is_destruction ev) evs"
      using r(10) True by simp
    ultimately show ?thesis using b r(3,6,8,9,11,12)
      apply -
      apply (rule disjI2)
      apply (rule exI[of _ s'], rule exI[of _ ba'], rule exI[of _ evs])
      apply (intro conjI; assumption)
      done
  qed
next
  case False
  then have eq: "SafeInitializedRawMemory T (Some a) i n (Some q) j s
      = copy_loop T (Some a) i (Some q) j 0 n s"
    by (simp add: SafeInitializedRawMemory_def uninitialized_copy_n_def)
  have *: "i + 0 + n \<le> length ba" "j + 0 + n \<le> length bq"
    "\<forall>m. 0 \<le> m \<and> m < 0 + n \<longrightarrow> ba ! (i + m) \<noteq> None"
    "\<forall>m<0. bq ! (j + m) \<noteq> None"
    "\<forall>m. 0 \<le> m \<and> m < 0 + n \<longrightarrow> bq ! (j + m) = None"
    using assms by auto
  from copy_loop_cases[OF assms(1,2,3) *, of T]
  show ?thesis
  proof (elim disjE exE conjE)
    fix s' bq'
    assume r: "copy_loop T (Some a) i (Some q) j 0 n s = Ok () s'"
      "\<forall>y. block s' y = (if y = q then Some bq' else block s y)"
      "length bq' = length bq"
      "\<forall>m<length bq. bq' ! m = (if j + 0 \<le> m \<and> m < j + 0 + n then ba ! (i + (m - j)) else bq ! m)"
      "trace s' = trace s @
         map (\<lambda>m. Constructed CopyCtor (Slot q (j + m)) (the (ba ! (i + m)))) [0..<0 + n]"
      "leaked s' = leaked s" "length (blocks s') = length (blocks s)"
    have "SafeInitializedRawMemory T (Some a) i n (Some q) j s = Ok () s'" using eq r(1) by simp
    moreover have "\<forall>y. block s' y = (if y = q then Some bq' else if y = a then Some ba else block s y)"
      using r(2) assms(2) by auto
    moreover have "length ba = length ba" "\<forall>m<length ba. (ba ! m = None) = (ba ! m = None)" by simp_all
    moreover have "\<forall>m<length bq. bq' ! m =
                (if j \<le> m \<and> m < j + n then ba ! (i + (m - j)) else bq ! m)" using r(4) by simp
    moreover have "trace s' = trace s @
              map (\<lambda>m. Constructed
                     (if nothrow_move_constructible T \<or> \<not> copy_constructible T
                      then MoveCtor else CopyCtor)
                     (Slot q (j + m)) (the (ba ! (i + m)))) [0..<n]"
      using r(5) False by simp
    moreover have "\<forall>m<length ba. \<not> (i \<le> m \<and> m < i + n) \<longrightarrow> ba ! m = ba ! m"
      by simp
    ultimately show ?thesis using r(3,6,7)
      apply -
      apply (rule disjI1)
      apply (rule exI[of _ s'], rule exI[of _ bq'], rule exI[of _ ba])
      apply (intro conjI; assumption)
      done
  next
    fix s' bq' evs
    assume r: "copy_loop T (Some a) i (Some q) j 0 n s = Throw ElementException s'"
      "\<not> never_throws T"
      "\<forall>y. block s' y = (if y = q then Some bq' else block s y)"
      "length bq' = length bq"
      "\<forall>m<length bq. bq' ! m = (if j \<le> m \<and> m < j + 0 then None else bq ! m)"
      "trace s' = trace s @ evs"
      "list_all (\<lambda>ev. is_copy_construction ev \<or> is_destruction ev) evs"
      "leaked s' = leaked s" "length (blocks s') = length (blocks s)"
    have "bq' = bq" using r(4,5) by (intro nth_equalityI) auto
    then have b: "\<forall>y. block s' y = (if y = a then Some ba else block s y)"
      using r(3) assms(2,3) by auto
    have "SafeInitializedRawMemory T (Some a) i n (Some q) j s = Throw ElementException s'"
      using eq r(1) by simp
    moreover have "\<not> never_throws T" using r(2) by blast
    moreover have "\<not> nothrow_move_constructible T" using False by simp
    moreover have "copy_constructible T \<longrightarrow> ba = ba" by simp
    moreover have "length ba = length ba" "\<forall>m<length ba. (ba ! m = None) = (ba ! m = None)" by simp_all
    moreover have "list_all (\<lambda>ev. (if nothrow_move_constructible T \<or> \<not> copy_constructible T
                             then is_move_construction ev else is_copy_construction ev)
                            \<or> is_destruction ev) evs"
      using r(7) False by simp
    ultimately show ?thesis using b r(6,8,9)
      apply -
      apply (rule disjI2)
      apply (rule exI[of _ s'], rule exI[of _ ba], rule exI[of _ evs])
      apply (intro conjI; assumption)
      done
  qed
qed


lemma filter_live_Nil:
  assumes "\<forall>m<length b. b ! m = None"
  shows "map the (filter (\<lambda>c. c \<noteq> None) b) = []"
proof -
  have "\<forall>c\<in>set b. c = None" using assms by (auto simp: in_set_conv_nth)
  then have "filter (\<lambda>c. c \<noteq> None) b = []" by (auto simp: filter_empty_conv)
  then show ?thesis by simp
qed

lemma is_construction_simps [simp]:
  "is_construction (Constructed c p x)" "\<not> is_construction (OperatorNew a n)"
  "\<not> is_construction (OperatorDelete a)" "\<not> is_construction (Destroyed p x)"
  "\<not> is_construction (Assigned g p x)"
  by (simp_all add: is_construction_def)

lemma constructionsI:
  "trace s' = trace s @ evs \<Longrightarrow> constructions s s' = filter is_construction evs"
  by (simp add: constructions_def events_since_def)

lemma constructions_refl [simp]: "constructions s s = []"
  by (simp add: constructions_def events_since_def)

lemma filter_constructed [simp]:
  "filter is_construction (map (\<lambda>m. Constructed c (p m) (x m)) xs) =
     map (\<lambda>m. Constructed c (p m) (x m)) xs"
  by (induction xs) simp_all

lemma filter_destroyed [simp]:
  "filter is_construction (map (\<lambda>m. Destroyed (p m) (x m)) xs) = []"
  by (induction xs) simp_all

lemma list_all_constructed [simp]:
  "list_all (constructed_by c) (map (\<lambda>m. Constructed c (p m) (x m)) xs)"
  by (induction xs) (simp_all add: constructed_by_def)

lemma relocation_events:
  assumes "list_all (\<lambda>ev. (if nothrow_move_constructible T \<or> \<not> copy_constructible T
                             then is_move_construction ev else is_copy_construction ev)
                            \<or> is_destruction ev) evs"
  shows "list_all (constructed_by (relocation_ctor T)) (filter P evs)"
  using assms unfolding list_all_iff relocation_ctor_def
  by (auto split: if_splits;
      metis constructed_by_move constructed_by_copy constructed_by_destruction)

lemma to_int_small: "n < 2 ^ 31 \<Longrightarrow> to_int (int n) = int n"
  by (simp add: to_int_def)

lemma arg_value_new:
  assumes "arg_value s g = Some x"
    and "\<forall>y. block s1 y = (if y = length (blocks s) then c else block s y)"
  shows "arg_value s1 g = Some x"
proof (cases g)
  case (ElementRef a j)
  with assms(1) obtain b where "block s a = Some b"
    by (auto simp: arg_value_def object_def split: option.splits)
  then have "a \<noteq> length (blocks s)" using block_Some_less by blast
  then show ?thesis using assms ElementRef by (simp add: arg_value_def object_def)
qed (use assms(1) in \<open>simp_all add: arg_value_def\<close>)


lemma RawMemory_new_cases:
  assumes "n \<noteq> 0" "0 < size_of T" "n * size_of T < 2 ^ 63"
  shows "(RawMemory_new T n s = Throw BadAlloc s \<and> \<not> (n < 2 ^ 63 \<and> never_throws T)) \<or>
   (\<exists>s'. RawMemory_new T n s = Ok \<lparr>buffer_f = Some (length (blocks s)), capacity_f = n\<rparr> s' \<and>
      n < 2 ^ 63 \<and>
      (\<forall>x. block s' x = (if x = length (blocks s) then Some (replicate n None) else block s x)) \<and>
      trace s' = trace s @ [OperatorNew (length (blocks s)) n] \<and> leaked s' = leaked s \<and>
      length (blocks s') = Suc (length (blocks s)))"
proof -
  have "(n * size_of T) mod 2 ^ 64 = n * size_of T" using assms(3) by simp
  then show ?thesis
    using operator_new_cases[OF assms(2,3), of s] assms(1)
    by (auto simp: RawMemory_new_def Allocate_def)
qed

lemma Reserve_cases:
  assumes wf: "wf T s v" and k: "capacity_f (data_f v) < k" and fit: "k * size_of T < 2 ^ 63"
  shows "(Reserve T k v s = Throw BadAlloc (v, s) \<and> \<not> (k < 2 ^ 63 \<and> never_throws T))
    \<or> (\<exists>s'. Reserve T k v s = Throw ElementException (v, s') \<and> \<not> never_throws T \<and>
          \<not> nothrow_move_constructible T \<and> leaked s' = leaked s \<and> wf T s' v \<and>
          (copy_constructible T \<longrightarrow> elems s' v = elems s v) \<and>
          only_events (constructed_by (relocation_ctor T)) s s' \<and>
          (\<forall>y<length (blocks s). Some y \<noteq> buffer_f (data_f v) \<longrightarrow> block s' y = block s y))
    \<or> (\<exists>s'. Reserve T k v s =
            Ok () (\<lparr>data_f = \<lparr>buffer_f = Some (length (blocks s)), capacity_f = k\<rparr>,
                    size_f = size_f v\<rparr>, s') \<and>
          k < 2 ^ 63 \<and>
          elems s' \<lparr>data_f = \<lparr>buffer_f = Some (length (blocks s)), capacity_f = k\<rparr>,
                    size_f = size_f v\<rparr> = elems s v \<and>
          wf T s' \<lparr>data_f = \<lparr>buffer_f = Some (length (blocks s)), capacity_f = k\<rparr>,
                    size_f = size_f v\<rparr> \<and>
          leaked s' = leaked s \<and>
          only_events (constructed_by (relocation_ctor T)) s s' \<and>
          (\<forall>y<length (blocks s). Some y \<noteq> buffer_f (data_f v) \<longrightarrow> block s' y = block s y) \<and>
          constructions s s' =
            map (\<lambda>m. Constructed (relocation_ctor T) (Slot (length (blocks s)) m) (elems s v ! m))
              [0..<size_f v])"
proof -
  let ?a' = "length (blocks s)"
  let ?K = "constructed_by (relocation_ctor T) :: 'a event \<Rightarrow> bool"
  let ?nd = "\<lparr>buffer_f = Some ?a', capacity_f = k\<rparr>"
  let ?v' = "\<lparr>data_f = ?nd, size_f = size_f v\<rparr>"
  have k0: "k \<noteq> 0" using k by simp
  have sz: "0 < size_of T" using wf by (simp add: wf_def)
  from RawMemory_new_cases[OF k0 sz fit, of s]
  consider (oom) "RawMemory_new T k s = Throw BadAlloc s" "\<not> (k < 2 ^ 63 \<and> never_throws T)"
    | (ok) s1 where "RawMemory_new T k s = Ok ?nd s1" "k < 2 ^ 63"
      "\<forall>x. block s1 x = (if x = ?a' then Some (replicate k None) else block s x)"
      "trace s1 = trace s @ [OperatorNew ?a' k]" "leaked s1 = leaked s"
      "length (blocks s1) = Suc ?a'"
    by blast
  then show ?thesis
  proof cases
    case oom
    then have "Reserve T k v s = Throw BadAlloc (v, s)" using k by (simp add: Reserve_def)
    then show ?thesis using oom(2) by blast
  next
    case ok
    have new: "block s1 ?a' = Some (replicate k None)" using ok(3) by simp
    show ?thesis
    proof (cases "buffer_f (data_f v)")
      case None
      with wf have z: "capacity_f (data_f v) = 0" "size_f v = 0" using wf_NoneD by blast+
      have r: "Reserve T k v s = Ok () (?v', s1)"
        using k ok(1) None z
        by (simp add: Reserve_def RawMemory_Swap_def RawMemory_destroy_def Deallocate_def
            operator_delete_def)
      have "wf T s1 ?v'"
        by (rule wfI[where a = ?a' and b = "replicate k None"]) (use new fit sz z in auto)
      moreover have "elems s1 ?v' = elems s v" using None z new by (simp add: elems_def)
      moreover have "\<forall>y<length (blocks s). Some y \<noteq> buffer_f (data_f v) \<longrightarrow> block s1 y = block s y"
        using ok(3) by simp
      moreover have "only_events ?K s s1"
        by (rule only_eventsI[OF ok(4)]) (simp add: constructed_by_def)
      moreover have "constructions s s1 =
          map (\<lambda>m. Constructed (relocation_ctor T) (Slot ?a' m) (elems s v ! m)) [0..<size_f v]"
        using constructionsI[OF ok(4)] z by simp
      ultimately show ?thesis using r ok(2,5) by blast
    next
      case (Some a)
      from wf_SomeD[OF wf Some] obtain ba where ba: "block s a = Some ba"
        "length ba = capacity_f (data_f v)" "size_f v \<le> capacity_f (data_f v)"
        "\<forall>m<size_f v. ba ! m \<noteq> None" "\<forall>m<length ba. size_f v \<le> m \<longrightarrow> ba ! m = None"
        by blast
      have cap: "capacity_f (data_f v) * size_of T < 2 ^ 63"
        using wf by (simp add: wf_def)
      have ne: "a \<noteq> ?a'" using ba(1) block_Some_less by blast
      have ba1: "block s1 a = Some ba" using ok(3) ne ba(1) by simp
      have pre: "0 + size_f v \<le> length ba" "0 + size_f v \<le> length (replicate k None)"
        "\<forall>m<size_f v. ba ! (0 + m) \<noteq> None" "\<forall>m<size_f v. replicate k None ! (0 + m) = None"
        using ba k by auto
      from SafeInitializedRawMemory_cases[OF ne ba1 new pre, of T]
      show ?thesis
      proof (elim disjE exE conjE)
        fix s2 bq' ba'
        assume fine:
          "SafeInitializedRawMemory T (Some a) 0 (size_f v) (Some ?a') 0 s1 = Ok () s2"
          "\<forall>y. block s2 y = (if y = ?a' then Some bq' else if y = a then Some ba' else block s1 y)"
          "length bq' = length (replicate k None)" "length ba' = length ba"
          "\<forall>m<length (replicate k None). bq' ! m =
              (if 0 \<le> m \<and> m < 0 + size_f v then ba ! (0 + (m - 0)) else replicate k None ! m)"
          "\<forall>m<length ba. (ba ! m = None) = (ba' ! m = None)"
          "leaked s2 = leaked s1" "length (blocks s2) = length (blocks s1)"
        assume ftr: "trace s2 = trace s1 @
              map (\<lambda>m. Constructed
                     (if nothrow_move_constructible T \<or> \<not> copy_constructible T
                      then MoveCtor else CopyCtor)
                     (Slot ?a' (0 + m)) (the (ba ! (0 + m)))) [0..<size_f v]"
        have b2: "block s2 a = Some ba'" using fine(2) ne by simp
        have live: "\<forall>m<size_f v. ba' ! (0 + m) \<noteq> None" using fine(6) ba by auto
        have len: "0 + size_f v \<le> length ba'" using fine(4) ba by simp
        from destroy_n_cases[OF b2 len live]
        obtain s3 b3 where s3: "destroy_n (Some a) 0 (size_f v) s2 = Ok () s3"
          "\<forall>y. block s3 y = (if y = a then Some b3 else block s2 y)" "length b3 = length ba'"
          "\<forall>m<length ba'. b3 ! m = (if 0 \<le> m \<and> m < 0 + size_f v then None else ba' ! m)"
          "leaked s3 = leaked s2" "length (blocks s3) = length (blocks s2)"
          "trace s3 = trace s2 @ map (\<lambda>m. Destroyed (Slot a m) (the (ba' ! m))) [0..<0 + size_f v]"
          by blast
        have b3a: "block s3 a = Some b3" using s3(2) by simp
        from operator_delete_cases[OF b3a]
        obtain s4 where s4: "operator_delete (Some a) s3 = Ok () s4"
          "\<forall>x. block s4 x = (if x = a then None else block s3 x)"
          "leaked s4 = leaked s3 @ map the (filter (\<lambda>c. c \<noteq> None) b3)"
          "trace s4 = trace s3 @ [OperatorDelete a]"
          by blast
        have t1: "only_events ?K s s1"
          by (rule only_eventsI[OF ok(4)]) (simp add: constructed_by_def)
        have t2: "only_events ?K s1 s2"
          by (rule only_eventsI[OF ftr])
            (simp add: list_all_iff constructed_by_def relocation_ctor_def)
        have t3: "only_events ?K s2 s3"
          by (rule only_eventsI[OF s3(7)]) (simp add: list_all_iff constructed_by_def)
        have t4: "only_events ?K s3 s4"
          by (rule only_eventsI[OF s4(4)]) (simp add: constructed_by_def)
        have t: "only_events ?K s s4"
          using t1 t2 t3 t4 only_events_trans by blast
        have nn: "\<forall>m<length b3. b3 ! m = None" using s3(3,4) fine(4,6) ba by auto
        have l: "leaked s4 = leaked s"
          using s4(3) s3(5) fine(7) ok(5) unfolding filter_live_Nil[OF nn] by simp
        have r: "Reserve T k v s = Ok () (?v', s4)"
          using k ok(1) Some fine(1) s3(1) s4(1)
          by (simp add: Reserve_def RawMemory_Swap_def RawMemory_destroy_def Deallocate_def)
        have b4: "block s4 ?a' = Some bq'" using s4(2) s3(2) fine(2) ne by simp
        have bqv: "\<forall>m<k. bq' ! m = (if m < size_f v then ba ! m else None)"
          using fine(5) by auto
        have w: "wf T s4 ?v'"
          by (rule wfI[where a = ?a' and b = bq']) (use b4 fine(3) bqv ba k fit sz in auto)
        have "take (size_f v) bq' = take (size_f v) ba"
          by (rule take_eqI) (use fine(3) bqv ba k in auto)
        then have e: "elems s4 ?v' = elems s v" using b4 Some ba(1) by (simp add: elems_def)
        have f: "\<forall>y<length (blocks s). Some y \<noteq> buffer_f (data_f v) \<longrightarrow> block s4 y = block s y"
          using s4(2) s3(2) fine(2) ok(3) Some by auto
        have el: "\<forall>m<size_f v. elems s v ! m = the (ba ! m)"
          using Some ba(1,2,3) by (simp add: elems_def)
        have "trace s2 = trace s1 @
            map (\<lambda>m. Constructed (relocation_ctor T) (Slot ?a' m) (elems s v ! m)) [0..<size_f v]"
          using ftr el by (simp add: relocation_ctor_def)
        then have c: "constructions s s4 =
            map (\<lambda>m. Constructed (relocation_ctor T) (Slot ?a' m) (elems s v ! m)) [0..<size_f v]"
          using constructionsI[of s4 s
              "[OperatorNew ?a' k] @
               map (\<lambda>m. Constructed (relocation_ctor T) (Slot ?a' m) (elems s v ! m))
                 [0..<size_f v] @
               map (\<lambda>m. Destroyed (Slot a m) (the (ba' ! m))) [0..<0 + size_f v] @
               [OperatorDelete a]"]
            s4(4) s3(7) ok(4) by simp
        show ?thesis using r l w e f t c ok(2) by blast
      next
        fix s2 ba' evs
        assume thr0: "\<not> never_throws T"
        assume thr:
          "SafeInitializedRawMemory T (Some a) 0 (size_f v) (Some ?a') 0 s1 = Throw ElementException s2"
          "\<not> nothrow_move_constructible T"
          "\<forall>y. block s2 y = (if y = a then Some ba' else block s1 y)" "length ba' = length ba"
          "\<forall>m<length ba. (ba ! m = None) = (ba' ! m = None)" "copy_constructible T \<longrightarrow> ba' = ba"
          "leaked s2 = leaked s1" "length (blocks s2) = length (blocks s1)"
        assume ttr: "trace s2 = trace s1 @ evs"
          "list_all (\<lambda>ev. (if nothrow_move_constructible T \<or> \<not> copy_constructible T
                             then is_move_construction ev else is_copy_construction ev)
                            \<or> is_destruction ev) evs"
        have "block s2 ?a' = Some (replicate k None)" using thr(3) new ne by simp
        from operator_delete_cases[OF this]
        obtain s3 where s3: "operator_delete (Some ?a') s2 = Ok () s3"
          "\<forall>x. block s3 x = (if x = ?a' then None else block s2 x)"
          "leaked s3 = leaked s2 @ map the (filter (\<lambda>c. c \<noteq> None) (replicate k None))"
          "trace s3 = trace s2 @ [OperatorDelete ?a']"
          by blast
        have t1: "only_events ?K s s1"
          by (rule only_eventsI[OF ok(4)]) (simp add: constructed_by_def)
        have "list_all ?K evs"
          using ttr(2) unfolding list_all_iff relocation_ctor_def
          by (auto split: if_splits;
              metis constructed_by_move constructed_by_copy constructed_by_destruction)
        then have t2: "only_events ?K s1 s2" by (rule only_eventsI[OF ttr(1)])
        have t3: "only_events ?K s2 s3"
          by (rule only_eventsI[OF s3(4)]) (simp add: constructed_by_def)
        have t: "only_events ?K s s3"
          using t1 t2 t3 only_events_trans by blast
        have r: "Reserve T k v s = Throw ElementException (v, s3)"
          using k ok(1) Some thr(1) s3(1)
          by (simp add: Reserve_def RawMemory_destroy_def Deallocate_def)
        have l: "leaked s3 = leaked s" using s3(3) thr(7) ok(5) by simp
        have b3: "block s3 a = Some ba'" using s3(2) thr(3) ne by simp
        have w: "wf T s3 v"
          by (rule wfI[where a = a and b = ba']) (use Some b3 thr(4,5) ba cap sz in auto)
        have e: "copy_constructible T \<longrightarrow> elems s3 v = elems s v"
          using thr(6) Some b3 ba(1) by (simp add: elems_def)
        have f: "\<forall>y<length (blocks s). Some y \<noteq> buffer_f (data_f v) \<longrightarrow> block s3 y = block s y"
          using s3(2) thr(3) ok(3) Some by auto
        show ?thesis using r l w e f t thr(2) thr0 by blast
      qed
    qed
  qed
qed


lemma pushed_123_state: "pushed_123 = Ok () (v123, s123)"
  by (simp add: pushed_123_eq v123_def s123_def)

lemma wf_123: "wf plain_int s123 v123"
  by (simp add: wf_def v123_def s123_def block_def plain_int_def)

lemma elems_123: "elems s123 v123 = [1, 2, 3]"
  by (simp add: elems_def v123_def s123_def block_def)

section \<open>Reserve\<close>

text \<open>
  As long as \<open>k\<close> objects fit the address space (\<open>k * sizeof(T) < 2 ^ 63\<close>), \<^verbatim>\<open>Reserve(k)\<close> on
  a well-formed Vector has no undefined behaviour; when \<open>k\<close> is at most the capacity it
  returns with the Vector and the store as they were; when it returns otherwise, the
  capacity is exactly \<open>k\<close>. Whenever it returns, the capacity has not decreased and is at
  least \<open>k\<close>, and \<^verbatim>\<open>Size()\<close> and the live elements, in order, are as before. When it
  leaves by an exception the Vector object is as before. It returns whenever nothing
  throws.
\<close>

lemma Reserve_within_address_space:
  assumes "wf T s v" and fit: "k * size_of T < 2 ^ 63"
  shows "(case Reserve T k v s of
            Ok _ (v', s') \<Rightarrow>
              Capacity v' = (if k \<le> Capacity v then Capacity v else k) \<and>
              Capacity v \<le> Capacity v' \<and> k \<le> Capacity v' \<and>
              Size v' = Size v \<and> elems s' v' = elems s v \<and> wf T s' v'
          | Throw e (v', s') \<Rightarrow> v' = v \<and> Capacity v < k \<and> wf T s' v
          | UB \<Rightarrow> False)
       \<and> (k \<le> Capacity v \<longrightarrow> Reserve T k v s = Ok () (v, s))
       \<and> (never_throws T \<longrightarrow> (\<exists>v' s'. Reserve T k v s = Ok () (v', s')))"
proof (cases "k \<le> Capacity v")
  case True
  then have "Reserve T k v s = Ok () (v, s)" by (simp add: Reserve_def Capacity_def)
  then show ?thesis using True assms by simp
next
  case False
  then have k: "capacity_f (data_f v) < k" by (simp add: Capacity_def)
  have k63: "k < 2 ^ 63"
    using assms by (intro less_of_mult_less[of "size_of T" k]) (simp_all add: wf_def)
  from Reserve_cases[OF assms(1) k fit] show ?thesis
  proof (elim disjE exE conjE)
    assume "Reserve T k v s = Throw BadAlloc (v, s)" "\<not> (k < 2 ^ 63 \<and> never_throws T)"
    then show ?thesis using False assms k k63 by (simp add: Capacity_def)
  next
    fix s'
    assume "Reserve T k v s = Throw ElementException (v, s')" "\<not> never_throws T" "wf T s' v"
    then show ?thesis using False k by (simp add: Capacity_def)
  next
    fix s'
    assume r: "Reserve T k v s =
        Ok () (\<lparr>data_f = \<lparr>buffer_f = Some (length (blocks s)), capacity_f = k\<rparr>,
                size_f = size_f v\<rparr>, s')"
      "elems s' \<lparr>data_f = \<lparr>buffer_f = Some (length (blocks s)), capacity_f = k\<rparr>,
                size_f = size_f v\<rparr> = elems s v"
      "wf T s' \<lparr>data_f = \<lparr>buffer_f = Some (length (blocks s)), capacity_f = k\<rparr>,
                size_f = size_f v\<rparr>"
    then show ?thesis using False k by (simp add: Capacity_def Size_def)
  qed
qed

text \<open>
  C7 (the code fails the claim). \<^verbatim>\<open>Reserve(2 ^ 62)\<close> on the \<^verbatim>\<open>Vector<int>\<close> that holds
  1, 2, 3: \<^verbatim>\<open>Allocate\<close> asks for \<^verbatim>\<open>n * sizeof(int)\<close> bytes, which is \<open>2 ^ 64\<close> and wraps to
  0, and \<^verbatim>\<open>operator new(0)\<close> returns a block without room for an \<^verbatim>\<open>int\<close>, while
  \<^verbatim>\<open>capacity_\<close> is set to \<open>2 ^ 62\<close>. The relocation of the first element then writes
  outside that block: the call has undefined behaviour, and it neither reaches a
  capacity of \<open>2 ^ 62\<close> with the elements kept nor reports a failed allocation. On an
  empty Vector the same call returns, with a capacity of \<open>2 ^ 62\<close> and a buffer that
  holds no slot, so that the Vector is no longer well-formed.
\<close>

theorem Reserve_of_2_62_elements_overflows_the_new_block:
  "pushed_123 = Ok () (v123, s123) \<and> Capacity v123 = 4 \<and>
   (2 ^ 62 * size_of plain_int) mod 2 ^ 64 = (0::nat) \<and>
   RawMemory_new plain_int (2 ^ 62) s123 =
     Ok \<lparr>buffer_f = Some 3, capacity_f = 2 ^ 62\<rparr>
        (s123\<lparr>blocks := blocks s123 @ [Some []], trace := trace s123 @ [OperatorNew 3 0]\<rparr>) \<and>
   Reserve plain_int (2 ^ 62) v123 s123 = UB \<and>
   (case Reserve plain_int (2 ^ 62) Vector_default empty_store of
      Ok _ (v', s') \<Rightarrow>
        Capacity v' = 2 ^ 62 \<and> buffer_f (data_f v') = Some 0 \<and> block s' 0 = Some [] \<and>
        \<not> wf plain_int s' v'
    | _ \<Rightarrow> False)"
  by (simp add: pushed_123_state) (simp add: v123_def s123_def eval_defs)

text \<open>
  A type whose move constructor may throw and that can be copied (here nothing throws):
  it is relocated by copy.
\<close>

definition copied_int :: "int elem_type" where
  "copied_int =
     \<lparr>size_of = 4, nothrow_move_constructible = False, copy_constructible = True,
      value_init = 0,
      moved_from = (\<lambda>x. 0), throws = (\<lambda>_ _. False)\<rparr>"

text \<open>Two blocks: the elements 1, 2 in block 0, and two raw slots in block 1.\<close>

definition two_blocks :: "int store" where
  "two_blocks = \<lparr>blocks = [Some [Some 1, Some 2], Some [None, None]], trace = [], leaked = []\<rparr>"

lemma events_sinceI: "trace s' = trace s @ evs \<Longrightarrow> events_since s s' = evs"
  by (simp add: events_since_def)

lemma not_copy_if_move: "constructed_by MoveCtor ev \<Longrightarrow> \<not> is_copy_construction ev"
  by (cases ev) (auto simp: is_copy_construction_def constructed_by_def split: ctor.splits)

lemma only_events_mono:
  "only_events P s s' \<Longrightarrow> (\<And>ev. P ev \<Longrightarrow> Q ev) \<Longrightarrow> only_events Q s s'"
  by (auto simp: only_events_def list_all_iff)

subsection \<open>More concrete inputs\<close>

text \<open>
  A type that is relocated by copy and whose copy constructor throws when it copies the
  value 2; a moved-from object holds 0.
\<close>

definition copy_of_2_throws :: "int elem_type" where
  "copy_of_2_throws =
     \<lparr>size_of = 4, nothrow_move_constructible = False, copy_constructible = True,
      value_init = 0,
      moved_from = (\<lambda>x. 0),
      throws = (\<lambda>_ ev. case ev of Constructed CopyCtor _ x \<Rightarrow> x = 2 | _ \<Rightarrow> False)\<rparr>"

text \<open>\<^verbatim>\<open>Vector<T> v; v.PushBack(T(1)); v.PushBack(T(2));\<close> for that type.\<close>

definition pushed_12 :: "(unit, Vector \<times> int store) outcome" where
  "pushed_12 =
     (case PushBack_forward copy_of_2_throws (RvalueRef 1) Vector_default empty_store of
        Ok _ (v1, s1) \<Rightarrow> PushBack_forward copy_of_2_throws (RvalueRef 2) v1 s1
      | Throw e vs \<Rightarrow> Throw e vs
      | UB \<Rightarrow> UB)"

definition v12 :: Vector where
  "v12 = \<lparr>data_f = \<lparr>buffer_f = Some 1, capacity_f = 2\<rparr>, size_f = 2\<rparr>"

definition s12 :: "int store" where
  "s12 =
     \<lparr>blocks = [None, Some [Some 1, Some 2]],
      trace =
        [OperatorNew 0 1, Constructed MoveCtor (Slot 0 0) 1,
         OperatorNew 1 2, Constructed MoveCtor (Slot 1 1) 2,
         Constructed CopyCtor (Slot 1 0) 1, Destroyed (Slot 0 0) 1, OperatorDelete 0],
      leaked = []\<rparr>"

text \<open>A Vector of \<open>2 ^ 31\<close> elements, all 0, that is full.\<close>

definition v_2_31 :: Vector where
  "v_2_31 = \<lparr>data_f = \<lparr>buffer_f = Some 0, capacity_f = 2 ^ 31\<rparr>, size_f = 2 ^ 31\<rparr>"

definition s_2_31 :: "int store" where
  "s_2_31 = \<lparr>blocks = [Some (replicate (2 ^ 31) (Some 0))], trace = [], leaked = []\<rparr>"

lemma pushed_12_state: "pushed_12 = Ok () (v12, s12)"
  by (simp add: pushed_12_def copy_of_2_throws_def v12_def s12_def eval_defs)

lemma wf_12: "wf copy_of_2_throws s12 v12"
  by (simp add: wf_def v12_def s12_def block_def copy_of_2_throws_def)

lemma wf_2_31: "wf plain_int s_2_31 v_2_31"
  by (simp add: wf_def v_2_31_def s_2_31_def block_def list_all_iff plain_int_def)

section \<open>Failure during growth\<close>

text \<open>
  C3 (the code fails the claim). The Vector holds 1, 2 and is full; \<^verbatim>\<open>PushBack(T(3))\<close>
  allocates the new block, constructs 3 in slot 2 of it, copies 1, and the copy of 2
  throws. The copy of 1 is destroyed and the block is released, but no destructor runs
  for the 3 in slot 2: it is leaked. \<^verbatim>\<open>Emplace(begin() + 1, 5)\<close> on the same Vector
  constructs 5 in slot 1 of the new block and copies 1 into slot 0; the copy of 2, in a
  second call of \<^verbatim>\<open>std::uninitialized_copy_n\<close>, throws, and the block is released with
  both objects alive: the copy of 1 and the 5 are leaked. \<^verbatim>\<open>Reserve(5)\<close> on the same
  Vector fails in the same copy, and there every object built in the new block has been
  destroyed. In all three the Vector itself is unchanged.
\<close>

theorem failed_PushBack_leaks_new_element:
  "pushed_12 = Ok () (v12, s12) \<and> elems s12 v12 = [1, 2] \<and>
   PushBack_forward copy_of_2_throws (RvalueRef 3) v12 s12 =
     Throw ElementException
       (v12,
        \<lparr>blocks = [None, Some [Some 1, Some 2], None],
         trace = trace s12 @
           [OperatorNew 2 4, Constructed MoveCtor (Slot 2 2) 3,
            Constructed CopyCtor (Slot 2 0) 1, Destroyed (Slot 2 0) 1, OperatorDelete 2],
         leaked = [3]\<rparr>) \<and>
   Emplace copy_of_2_throws 1 (Args 5) v12 s12 =
     Throw ElementException
       (v12,
        \<lparr>blocks = [None, Some [Some 1, Some 2], None],
         trace = trace s12 @
           [OperatorNew 2 4, Constructed ArgsCtor (Slot 2 1) 5,
            Constructed CopyCtor (Slot 2 0) 1, OperatorDelete 2],
         leaked = [1, 5]\<rparr>) \<and>
   Reserve copy_of_2_throws 5 v12 s12 =
     Throw ElementException
       (v12,
        \<lparr>blocks = [None, Some [Some 1, Some 2], None],
         trace = trace s12 @
           [OperatorNew 2 5, Constructed CopyCtor (Slot 2 0) 1, Destroyed (Slot 2 0) 1,
            OperatorDelete 2],
         leaked = []\<rparr>)"
  by (simp add: pushed_12_state) (simp add: copy_of_2_throws_def v12_def s12_def eval_defs)

section \<open>Emplace\<close>

text \<open>
  C9 (the code fails the claim). \<^verbatim>\<open>v.Insert(v.begin(), v[2])\<close> on the Vector 1, 2, 3 with a
  free slot: the argument refers to the element 3. The path without reallocation shifts
  the elements first and reads the argument afterwards, when the slot it refers to holds
  2: the Vector becomes 2, 1, 2, 3 and not 3, 1, 2, 3.
\<close>

theorem Insert_of_own_element_inserts_other_value:
  "pushed_123 = Ok () (v123, s123) \<and> elems s123 v123 = [1, 2, 3] \<and>
   arg_value s123 (ElementRef 2 2) = Some 3 \<and>
   (case Insert plain_int 0 (ElementRef 2 2) v123 s123 of
      Ok i (v', s') \<Rightarrow> i = 0 \<and> Size v' = 4 \<and> elems s' v' = [2, 1, 2, 3]
    | _ \<Rightarrow> False)"
  by (simp add: pushed_123_state) (simp add: v123_def s123_def eval_defs)

section \<open>Appending\<close>

text \<open>
  C5 (the code fails the claim). \<^verbatim>\<open>EmplaceBack\<close> on a full Vector of \<open>2 ^ 31\<close> elements:
  \<^verbatim>\<open>int index = pos - begin()\<close> is \<open>- 2 ^ 31\<close>, and the new element is constructed at
  \<^verbatim>\<open>new_data.GetAddress() + index\<close>, before the new block, not at its final index.
\<close>

theorem EmplaceBack_at_2_31_elements_is_undefined:
  "wf plain_int s_2_31 v_2_31 \<and> Size v_2_31 = 2 ^ 31 \<and> Capacity v_2_31 = 2 ^ 31 \<and>
   to_int (int (Size v_2_31)) = - (2 ^ 31) \<and>
   EmplaceBack plain_int (Args 7) v_2_31 s_2_31 = UB"
  by (simp add: wf_2_31)
    (simp add: v_2_31_def s_2_31_def plain_int_def EmplaceBack_def Emplace_def
      EmplaceWithReallocate_def RawMemory_new_def Allocate_def operator_new_def
      Capacity_def Size_def to_int_def)

text \<open>
  C6 (the code fails the claim). After \<open>2 ^ 31\<close> elements have been pushed the Vector is
  full, and one more \<^verbatim>\<open>PushBack(const T&)\<close> goes through \<^verbatim>\<open>Emplace\<close> with the same
  negative \<^verbatim>\<open>index\<close>: the call has undefined behaviour, and the Vector does not get
  \<open>2 ^ 31 + 1\<close> elements.
\<close>

theorem PushBack_after_2_31_elements_is_undefined:
  "wf plain_int s_2_31 v_2_31 \<and> length (elems s_2_31 v_2_31) = 2 ^ 31 \<and>
   PushBack plain_int (ConstRef 7) v_2_31 s_2_31 = UB"
  by (simp add: wf_2_31)
    (simp add: v_2_31_def s_2_31_def plain_int_def PushBack_def EmplaceBack_def Emplace_def
      EmplaceWithReallocate_def RawMemory_new_def Allocate_def operator_new_def
      Capacity_def Size_def to_int_def elems_def block_def)

section \<open>What a call leaves untouched\<close>

lemma state_of_simps [simp]:
  "state_of (Ok r s) = Some s" "state_of (Throw e s) = Some s" "state_of UB = None"
  by (simp_all add: state_of_def)

lemma frame_refl [simp]: "frame A s s"
  by (simp add: frame_def)

lemma frame_trans: "frame A s s1 \<Longrightarrow> frame A s1 s2 \<Longrightarrow> frame A s s2"
  by (auto simp: frame_def)

lemma frame_mono: "frame A s s' \<Longrightarrow> A \<subseteq> B \<Longrightarrow> frame B s s'"
  by (auto simp: frame_def)

lemma frame_fresh:
  "frame A s s1 \<Longrightarrow> frame B s1 s2 \<Longrightarrow> \<forall>y\<in>B. y \<in> A \<or> length (blocks s) \<le> y \<Longrightarrow> frame A s s2"
  by (fastforce simp: frame_def)

lemma frame_put [simp]: "frame {a} s (put a i c s)"
  by (simp add: frame_def)

lemma frame_log_iff [simp]: "frame A s (log ev s') = frame A s s'"
  by (simp add: frame_def)

lemma frame_leaked_iff [simp]: "frame A s (s'\<lparr>leaked := l\<rparr>) = frame A s s'"
  by (simp add: frame_def)

lemma frame_put_iff: "frame A s s' \<Longrightarrow> a \<in> A \<Longrightarrow> frame A s (put a i c s')"
  by (auto simp: frame_def)

lemma construct_at_frame:
  "state_of (construct_at T c x p i s) = Some s' \<Longrightarrow> frame (set_option p) s s'"
  by (auto simp: construct_at_def frame_put_iff split: option.splits if_splits)

lemma construct_at_Throw: "construct_at T c x p i s = Throw e s' \<Longrightarrow> s' = s"
  by (auto simp: construct_at_def split: option.splits if_splits)

lemma construct_at_Throw_move:
  "construct_at T MoveCtor x p i s = Throw e s' \<Longrightarrow> \<not> nothrow_move_constructible T"
  by (auto simp: construct_at_def raises_def is_move_construction_def
      split: option.splits if_splits)

lemma destroy_at_frame:
  "state_of (destroy_at p i s) = Some s' \<Longrightarrow> frame (set_option p) s s'"
  by (cases p) (auto simp: destroy_at_def frame_put_iff split: option.splits)

lemma assign_at_frame:
  "state_of (assign_at T g x p i s) = Some s' \<Longrightarrow> frame (set_option p) s s'"
  by (cases p) (auto simp: assign_at_def frame_put_iff split: option.splits if_splits)

lemma copy_construct_frame:
  "state_of (copy_construct T p i q j s) = Some s' \<Longrightarrow> frame (set_option q) s s'"
  by (auto simp: copy_construct_def split: option.splits dest: construct_at_frame)

lemma move_construct_frame:
  assumes a: "state_of (move_construct T p i q j s) = Some s'"
  shows "frame (set_option p \<union> set_option q) s s'"
proof (cases p)
  case None
  then show ?thesis using a by (simp add: move_construct_def)
next
  case (Some a)
  from a obtain x where x: "object s p i = Some x"
    by (auto simp: move_construct_def split: option.splits)
  show ?thesis
  proof (cases "construct_at T MoveCtor x q j s")
    case (Ok u s1)
    then have "frame (set_option q) s s1" using construct_at_frame[of T MoveCtor x q j s s1] by simp
    then have "frame (set_option p \<union> set_option q) s s1" by (rule frame_mono) simp
    then have "frame (set_option p \<union> set_option q) s (put a i (Some (moved_from T x)) s1)"
      by (rule frame_put_iff) (simp add: Some)
    then show ?thesis using a x Ok Some by (simp add: move_construct_def)
  next
    case (Throw e s1)
    then have "s1 = s" by (rule construct_at_Throw)
    then show ?thesis using a x Throw by (simp add: move_construct_def)
  next
    case UB
    then show ?thesis using a x by (simp add: move_construct_def)
  qed
qed

lemma move_construct_Throw:
  "move_construct T p i q j s = Throw e s' \<Longrightarrow> \<not> nothrow_move_constructible T"
  by (auto simp: move_construct_def split: option.splits outcome.splits
      dest: construct_at_Throw_move)

lemma copy_assign_frame:
  "state_of (copy_assign T p i q j s) = Some s' \<Longrightarrow> frame (set_option q) s s'"
  by (auto simp: copy_assign_def split: option.splits dest: assign_at_frame)

lemma move_assign_frame:
  assumes a: "state_of (move_assign T p i q j s) = Some s'"
  shows "frame (set_option p \<union> set_option q) s s'"
proof (cases p)
  case None
  then show ?thesis using a by (simp add: move_assign_def)
next
  case (Some a)
  from a obtain x where x: "object s p i = Some x"
    by (auto simp: move_assign_def split: option.splits)
  show ?thesis
  proof (cases "assign_at T MoveAsg x q j s")
    case (Ok u s1)
    then have "frame (set_option q) s s1" using assign_at_frame[of T MoveAsg x q j s s1] by simp
    then have "frame (set_option p \<union> set_option q) s s1" by (rule frame_mono) simp
    then have "frame (set_option p \<union> set_option q) s (put a i (Some (moved_from T x)) s1)"
      by (rule frame_put_iff) (simp add: Some)
    then show ?thesis using a x Ok Some by (simp add: move_assign_def)
  next
    case (Throw e s1)
    then have "frame (set_option q) s s1" using assign_at_frame[of T MoveAsg x q j s s1] by simp
    then have "frame (set_option p \<union> set_option q) s s1" by (rule frame_mono) simp
    then show ?thesis using a x Throw by (simp add: move_assign_def)
  next
    case UB
    then show ?thesis using a x by (simp add: move_assign_def)
  qed
qed

lemma destroy_n_frame:
  "state_of (destroy_n p i n s) = Some s' \<Longrightarrow> frame (set_option p) s s'"
proof (induction n arbitrary: s i)
  case 0
  then show ?case by simp
next
  case (Suc n)
  show ?case
  proof (cases "destroy_at p i s")
    case (Ok u s1)
    then have "frame (set_option p) s s1" using destroy_at_frame[of p i s s1] by simp
    moreover have "frame (set_option p) s1 s'" using Suc Ok by simp
    ultimately show ?thesis by (rule frame_trans)
  next
    case (Throw e s1)
    then show ?thesis using Suc.prems destroy_at_frame[of p i s s1] by simp
  next
    case UB
    then show ?thesis using Suc.prems by simp
  qed
qed

lemma destroy_n_no_Throw: "destroy_n p i n s \<noteq> Throw e s'"
proof (induction n arbitrary: s i)
  case 0
  then show ?case by simp
next
  case (Suc n)
  then show ?case by (auto simp: destroy_at_def split: outcome.splits option.splits)
qed

lemma copy_loop_frame:
  "state_of (copy_loop T p i q j k n s) = Some s' \<Longrightarrow> frame (set_option q) s s'"
proof (induction n arbitrary: s k)
  case 0
  then show ?case by simp
next
  case (Suc n)
  show ?case
  proof (cases "copy_construct T p (i + k) q (j + k) s")
    case (Ok u s1)
    then have "frame (set_option q) s s1" using copy_construct_frame[of T p "i + k" q "j + k" s s1] by simp
    moreover have "frame (set_option q) s1 s'" using Suc Ok by simp
    ultimately show ?thesis by (rule frame_trans)
  next
    case (Throw e s1)
    then have 1: "frame (set_option q) s s1" using copy_construct_frame[of T p "i + k" q "j + k" s s1] by simp
    from Suc.prems Throw obtain s2 where "destroy_n q j k s1 = Ok () s2" "s' = s2"
      by (auto split: outcome.splits)
    then have "frame (set_option q) s1 s'" using destroy_n_frame[of q j k s1 s2] by simp
    with 1 show ?thesis by (rule frame_trans)
  next
    case UB
    then show ?thesis using Suc.prems by simp
  qed
qed

lemma move_loop_frame:
  "state_of (move_loop T p i q j k n s) = Some s' \<Longrightarrow>
   frame (set_option p \<union> set_option q) s s'"
proof (induction n arbitrary: s k)
  case 0
  then show ?case by simp
next
  case (Suc n)
  show ?case
  proof (cases "move_construct T p (i + k) q (j + k) s")
    case (Ok u s1)
    then have "frame (set_option p \<union> set_option q) s s1"
      using move_construct_frame[of T p "i + k" q "j + k" s s1] by simp
    moreover have "frame (set_option p \<union> set_option q) s1 s'" using Suc Ok by simp
    ultimately show ?thesis by (rule frame_trans)
  next
    case (Throw e s1)
    then have 1: "frame (set_option p \<union> set_option q) s s1"
      using move_construct_frame[of T p "i + k" q "j + k" s s1] by simp
    from Suc.prems Throw obtain s2 where "destroy_n q j k s1 = Ok () s2" "s' = s2"
      by (auto split: outcome.splits)
    then have "frame (set_option q) s1 s'" using destroy_n_frame[of q j k s1 s2] by simp
    then have "frame (set_option p \<union> set_option q) s1 s'" by (rule frame_mono) simp
    with 1 show ?thesis by (rule frame_trans)
  next
    case UB
    then show ?thesis using Suc.prems by simp
  qed
qed

lemma move_loop_Throw:
  "move_loop T p i q j k n s = Throw e s' \<Longrightarrow> \<not> nothrow_move_constructible T"
proof (induction n arbitrary: s k)
  case 0
  then show ?case by simp
next
  case (Suc n)
  then show ?case
    by (auto split: outcome.splits dest: move_construct_Throw)
qed

lemma SafeInitializedRawMemory_Throw:
  "SafeInitializedRawMemory T p i n q j s = Throw e s' \<Longrightarrow> \<not> nothrow_move_constructible T"
  by (auto simp: SafeInitializedRawMemory_def uninitialized_move_n_def
      split: if_splits dest: move_loop_Throw)

lemma SafeInitializedRawMemory_frame:
  "state_of (SafeInitializedRawMemory T p i n q j s) = Some s' \<Longrightarrow>
   frame (set_option p \<union> set_option q) s s'"
  by (auto simp: SafeInitializedRawMemory_def uninitialized_move_n_def uninitialized_copy_n_def
      split: if_splits dest: move_loop_frame copy_loop_frame intro: frame_mono)

lemma SafeInitializedRawMemory_frame_copy:
  "state_of (SafeInitializedRawMemory T p i n q j s) = Some s' \<Longrightarrow>
   \<not> nothrow_move_constructible T \<Longrightarrow> copy_constructible T \<Longrightarrow> frame (set_option q) s s'"
  by (auto simp: SafeInitializedRawMemory_def uninitialized_copy_n_def dest: copy_loop_frame)

lemma operator_delete_frame:
  "state_of (operator_delete p s) = Some s' \<Longrightarrow> frame (set_option p) s s'"
  by (auto simp: operator_delete_def frame_def block_def split: option.splits)

lemma RawMemory_destroy_frame:
  "state_of (RawMemory_destroy m s) = Some s' \<Longrightarrow> frame (set_option (buffer_f m)) s s'"
  by (simp add: RawMemory_destroy_def Deallocate_def operator_delete_frame)

lemma RawMemory_new_Throw: "RawMemory_new T n s = Throw e s' \<Longrightarrow> s' = s"
  by (auto simp: RawMemory_new_def Allocate_def operator_new_def Let_def
      split: if_splits outcome.splits)

lemma RawMemory_new_Ok:
  "RawMemory_new T n s = Ok nd s' \<Longrightarrow>
   frame {} s s' \<and> capacity_f nd = n \<and> (\<forall>y\<in>set_option (buffer_f nd). length (blocks s) \<le> y)"
  by (auto simp: RawMemory_new_def Allocate_def operator_new_def Let_def frame_def block_def
      nth_append split: if_splits outcome.splits)

lemma arg_value_frame:
  "frame {} s s' \<Longrightarrow> arg_value s g \<noteq> None \<Longrightarrow> arg_value s' g = arg_value s g"
  by (cases g) (auto simp: arg_value_def object_def frame_def block_def split: option.splits if_splits)

lemma construct_from_Throw: "construct_from T g p i s = Throw e s' \<Longrightarrow> s' = s"
  by (auto simp: construct_from_def split: option.splits dest: construct_at_Throw)

lemma construct_from_frame:
  "state_of (construct_from T g p i s) = Some s' \<Longrightarrow> frame (set_option p) s s'"
  by (auto simp: construct_from_def split: option.splits dest: construct_at_frame)


lemma wf_elems_frame:
  assumes "wf T s v" "frame A s s'" "set_option (buffer_f (data_f v)) \<inter> A = {}"
  shows "wf T s' v \<and> elems s' v = elems s v"
proof (cases "buffer_f (data_f v)")
  case None
  then show ?thesis using assms(1) by (simp add: wf_def elems_def)
next
  case (Some a)
  from wf_SomeD[OF assms(1) Some] obtain b where b: "block s a = Some b" by blast
  then have "a < length (blocks s)" by (rule block_Some_less)
  moreover have "a \<notin> A" using assms(3) Some by simp
  ultimately have "block s' a = block s a" using assms(2) by (simp add: frame_def)
  then show ?thesis using assms(1) Some by (simp add: wf_def elems_def)
qed

lemma unwind_new_data:
  assumes "RawMemory_new T n s = Ok nd s1" "frame (set_option (buffer_f nd)) s1 s2"
    "RawMemory_destroy nd s2 = Ok u s'"
  shows "frame {} s s'"
proof -
  from RawMemory_new_Ok[OF assms(1)]
  have 1: "frame {} s s1" and fr: "\<forall>y\<in>set_option (buffer_f nd). length (blocks s) \<le> y" by simp_all
  have "frame (set_option (buffer_f nd)) s2 s'"
    using RawMemory_destroy_frame[of nd s2 s'] assms(3) by simp
  with assms(2) have "frame (set_option (buffer_f nd)) s1 s'" by (rule frame_trans)
  with 1 show ?thesis by (rule frame_fresh) (use fr in auto)
qed

lemma PushBack_forward_Throw:
  assumes "PushBack_forward T g v s = Throw e (v', s')"
    and "nothrow_move_constructible T \<or> copy_constructible T"
  shows "v' = v \<and> frame {} s s'"
proof (cases "size_f v < capacity_f (data_f v)")
  case True
  with assms(1) have "construct_from T g (buffer_f (data_f v)) (size_f v) s = Throw e s'" "v' = v"
    by (auto simp: PushBack_forward_def split: outcome.splits)
  then show ?thesis using construct_from_Throw by fastforce
next
  case False
  let ?n = "if size_f v = 0 then 1 else (size_f v * 2) mod 2 ^ 64"
  let ?p = "buffer_f (data_f v)"
  show ?thesis
  proof (cases "RawMemory_new T ?n s")
    case (Throw e1 s1)
    then show ?thesis using assms(1) False RawMemory_new_Throw[OF Throw]
      by (simp add: PushBack_forward_def)
  next
    case UB
    then show ?thesis using assms(1) False by (simp add: PushBack_forward_def)
  next
    case (Ok nd s1)
    show ?thesis
    proof (cases "construct_from T g (buffer_f nd) (size_f v) s1")
      case (Throw e2 s2)
      then have s2: "s2 = s1" by (rule construct_from_Throw)
      have "PushBack_forward T g v s =
          (case RawMemory_destroy nd s2 of Ok _ s3 \<Rightarrow> Throw e2 (v, s3) | _ \<Rightarrow> UB)"
        using False Ok Throw by (simp add: PushBack_forward_def)
      with assms(1) obtain u where "RawMemory_destroy nd s2 = Ok u s'" "v' = v"
        by (auto split: outcome.splits)
      then show ?thesis using unwind_new_data[OF Ok, of s2 u s'] s2 by simp
    next
      case UB
      then show ?thesis using assms(1) False Ok by (simp add: PushBack_forward_def)
    next
      case c: (Ok u2 s2)
      then have f2: "frame (set_option (buffer_f nd)) s1 s2"
        using construct_from_frame[of T g "buffer_f nd" "size_f v" s1 s2] by simp
      show ?thesis
      proof (cases "SafeInitializedRawMemory T ?p 0 (size_f v) (buffer_f nd) 0 s2")
        case (Throw e3 s3)
        then have "\<not> nothrow_move_constructible T" by (rule SafeInitializedRawMemory_Throw)
        with assms(2) have "copy_constructible T" "\<not> nothrow_move_constructible T" by simp_all
        then have "frame (set_option (buffer_f nd)) s2 s3"
          using SafeInitializedRawMemory_frame_copy[of T ?p 0 "size_f v" "buffer_f nd" 0 s2 s3] Throw
          by simp
        with f2 have f3: "frame (set_option (buffer_f nd)) s1 s3" by (rule frame_trans)
        have "PushBack_forward T g v s =
            (case RawMemory_destroy nd s3 of Ok _ s4 \<Rightarrow> Throw e3 (v, s4) | _ \<Rightarrow> UB)"
          using False Ok c Throw by (simp add: PushBack_forward_def)
        with assms(1) obtain u where "RawMemory_destroy nd s3 = Ok u s'" "v' = v"
          by (auto split: outcome.splits)
        then show ?thesis using unwind_new_data[OF Ok f3] by simp
      next
        case UB
        then show ?thesis using assms(1) False Ok c by (simp add: PushBack_forward_def)
      next
        case d: (Ok u3 s3)
        have "PushBack_forward T g v s =
            (case destroy_n ?p 0 (size_f v) s3 of
               Ok _ s4 \<Rightarrow>
                 (case RawMemory_Swap (data_f v, nd) of
                    (d, nd') \<Rightarrow>
                      (case RawMemory_destroy nd' s4 of
                         Ok _ s5 \<Rightarrow>
                           Ok () (v\<lparr>data_f := d, size_f := (size_f v + 1) mod 2 ^ 64\<rparr>, s5)
                       | _ \<Rightarrow> UB))
             | _ \<Rightarrow> UB)"
          using False Ok c d by (simp add: PushBack_forward_def)
        with assms(1) show ?thesis by (auto split: outcome.splits prod.splits)
      qed
    qed
  qed
qed

lemma EmplaceWithReallocate_Throw:
  assumes "EmplaceWithReallocate T pos g v s = Throw e (v', s')"
    and "nothrow_move_constructible T \<or> copy_constructible T"
  shows "v' = v \<and> frame {} s s'"
proof -
  let ?n = "if size_f v = 0 then 1 else (size_f v * 2) mod 2 ^ 64"
  let ?p = "buffer_f (data_f v)"
  let ?i = "nat (to_int (int pos))"
  show ?thesis
  proof (cases "RawMemory_new T ?n s")
    case (Throw e1 s1)
    then show ?thesis using assms(1) RawMemory_new_Throw[OF Throw]
      by (simp add: EmplaceWithReallocate_def)
  next
    case UB
    then show ?thesis using assms(1) by (simp add: EmplaceWithReallocate_def)
  next
    case (Ok nd s1)
    have "to_int (int pos) < 0 \<Longrightarrow> EmplaceWithReallocate T pos g v s = UB"
      using Ok by (simp add: EmplaceWithReallocate_def Let_def)
    with assms(1) have ix: "\<not> to_int (int pos) < 0" by auto
    show ?thesis
    proof (cases "construct_from T g (buffer_f nd) ?i s1")
      case (Throw e2 s2)
      then have s2: "s2 = s1" by (rule construct_from_Throw)
      have "EmplaceWithReallocate T pos g v s =
          (case RawMemory_destroy nd s2 of Ok _ s3 \<Rightarrow> Throw e2 (v, s3) | _ \<Rightarrow> UB)"
        using ix Ok Throw by (simp add: EmplaceWithReallocate_def Let_def)
      with assms(1) obtain u where "RawMemory_destroy nd s2 = Ok u s'" "v' = v"
        by (auto split: outcome.splits)
      then show ?thesis using unwind_new_data[OF Ok, of s2 u s'] s2 by simp
    next
      case UB
      then show ?thesis using assms(1) ix Ok by (simp add: EmplaceWithReallocate_def Let_def)
    next
      case c: (Ok u2 s2)
      then have f2: "frame (set_option (buffer_f nd)) s1 s2"
        using construct_from_frame[of T g "buffer_f nd" ?i s1 s2] by simp
      show ?thesis
      proof (cases "SafeInitializedRawMemory T ?p 0 ?i (buffer_f nd) 0 s2")
        case (Throw e3 s3)
        then have "\<not> nothrow_move_constructible T" by (rule SafeInitializedRawMemory_Throw)
        with assms(2) have "copy_constructible T" "\<not> nothrow_move_constructible T" by simp_all
        then have "frame (set_option (buffer_f nd)) s2 s3"
          using SafeInitializedRawMemory_frame_copy[of T ?p 0 ?i "buffer_f nd" 0 s2 s3] Throw
          by simp
        with f2 have f3: "frame (set_option (buffer_f nd)) s1 s3" by (rule frame_trans)
        have "EmplaceWithReallocate T pos g v s =
            (case RawMemory_destroy nd s3 of Ok _ s4 \<Rightarrow> Throw e3 (v, s4) | _ \<Rightarrow> UB)"
          using ix Ok c Throw by (simp add: EmplaceWithReallocate_def Let_def)
        with assms(1) obtain u where "RawMemory_destroy nd s3 = Ok u s'" "v' = v"
          by (auto split: outcome.splits)
        then show ?thesis using unwind_new_data[OF Ok f3] by simp
      next
        case UB
        then show ?thesis using assms(1) ix Ok c by (simp add: EmplaceWithReallocate_def Let_def)
      next
        case d: (Ok u3 s3)
        show ?thesis
        proof (cases "SafeInitializedRawMemory T ?p ?i ((size_f v + 2 ^ 64 - ?i) mod 2 ^ 64)
                        (buffer_f nd) (?i + 1) s3")
          case (Throw e4 s4)
          then have "\<not> nothrow_move_constructible T" by (rule SafeInitializedRawMemory_Throw)
          with assms(2) have cp: "copy_constructible T" "\<not> nothrow_move_constructible T"
            by simp_all
          then have "frame (set_option (buffer_f nd)) s2 s3"
            using SafeInitializedRawMemory_frame_copy[of T ?p 0 ?i "buffer_f nd" 0 s2 s3] d
            by simp
          with f2 have f3: "frame (set_option (buffer_f nd)) s1 s3" by (rule frame_trans)
          have "frame (set_option (buffer_f nd)) s3 s4"
            using SafeInitializedRawMemory_frame_copy[of T ?p ?i
                "(size_f v + 2 ^ 64 - ?i) mod 2 ^ 64" "buffer_f nd" "?i + 1" s3 s4]
              Throw cp by simp
          with f3 have f4: "frame (set_option (buffer_f nd)) s1 s4" by (rule frame_trans)
          have "EmplaceWithReallocate T pos g v s =
              (case RawMemory_destroy nd s4 of Ok _ s5 \<Rightarrow> Throw e4 (v, s5) | _ \<Rightarrow> UB)"
            using ix Ok c d Throw by (simp add: EmplaceWithReallocate_def Let_def)
          with assms(1) obtain u where "RawMemory_destroy nd s4 = Ok u s'" "v' = v"
            by (auto split: outcome.splits)
          then show ?thesis using unwind_new_data[OF Ok f4] by simp
        next
          case UB
          then show ?thesis using assms(1) ix Ok c d
            by (simp add: EmplaceWithReallocate_def Let_def)
        next
          case e: (Ok u4 s4)
          have "EmplaceWithReallocate T pos g v s =
              (case destroy_n ?p 0 (size_f v) s4 of
                 Ok _ s5 \<Rightarrow>
                   (case RawMemory_Swap (data_f v, nd) of
                      (d, nd') \<Rightarrow>
                        (case RawMemory_destroy nd' s5 of
                           Ok _ s6 \<Rightarrow>
                             Ok ?i (v\<lparr>data_f := d, size_f := (size_f v + 1) mod 2 ^ 64\<rparr>, s6)
                         | _ \<Rightarrow> UB))
               | _ \<Rightarrow> UB)"
            using ix Ok c d e by (simp add: EmplaceWithReallocate_def Let_def)
          with assms(1) show ?thesis by (auto split: outcome.splits prod.splits)
        qed
      qed
    qed
  qed
qed

lemma EmplaceWithoutReallocate_end_Throw:
  assumes "EmplaceWithoutReallocate T (size_f v) g v s = Throw e (v', s')"
  shows "v' = v \<and> frame {} s s'"
proof -
  have "EmplaceWithoutReallocate T (size_f v) g v s =
      (case construct_from T g (buffer_f (data_f v)) (size_f v) s of
           Throw e s1 \<Rightarrow> Throw e (v, s1)
         | UB \<Rightarrow> UB
         | Ok _ s1 \<Rightarrow>
             if to_int (int (size_f v)) < 0 then UB
             else Ok (nat (to_int (int (size_f v)))) (v\<lparr>size_f := (size_f v + 1) mod 2 ^ 64\<rparr>, s1))"
    by (simp add: EmplaceWithoutReallocate_def Let_def)
  with assms have "construct_from T g (buffer_f (data_f v)) (size_f v) s = Throw e s'" "v' = v"
    by (auto split: outcome.splits if_splits)
  then show ?thesis using construct_from_Throw by fastforce
qed

lemma Emplace_Throw:
  assumes "Emplace T pos g v s = Throw e (v', s')"
    and "nothrow_move_constructible T \<or> copy_constructible T"
    and "Capacity v \<le> size_f v \<or> pos = size_f v"
  shows "v' = v \<and> frame {} s s'"
proof (cases "Capacity v > size_f v")
  case True
  with assms(3) have "pos = size_f v" by simp
  then show ?thesis using assms(1) True EmplaceWithoutReallocate_end_Throw[of T v g s e v' s']
    by (simp add: Emplace_def)
next
  case False
  then show ?thesis using assms(1,2) EmplaceWithReallocate_Throw[of T pos g v s e v' s']
    by (simp add: Emplace_def)
qed

lemma PushBack_Throw:
  assumes "PushBack T g v s = Throw e (v', s')"
    and "nothrow_move_constructible T \<or> copy_constructible T"
  shows "v' = v \<and> frame {} s s'"
proof -
  from assms(1) have "Emplace T (size_f v) (const_ref g) v s = Throw e (v', s')"
    by (auto simp: PushBack_def EmplaceBack_def split: outcome.splits)
  then show ?thesis using Emplace_Throw[OF _ assms(2)] by blast
qed

section \<open>What a call on one Vector can change\<close>

lemma touches_own_refl [simp]: "touches_own v s v s"
  by (simp add: touches_own_def)

lemma touches_own_same: "frame (set_option (buffer_f (data_f v))) s s' \<Longrightarrow>
    buffer_f (data_f v') = buffer_f (data_f v) \<Longrightarrow> touches_own v s v' s'"
  by (simp add: touches_own_def)

lemma touches_own_trans:
  assumes "touches_own v s v1 s1" "touches_own v1 s1 v2 s2"
  shows "touches_own v s v2 s2"
proof -
  let ?A = "set_option (buffer_f (data_f v))"
  from assms have f1: "frame ?A s s1"
    and b1: "\<forall>y\<in>set_option (buffer_f (data_f v1)). y \<in> ?A \<or> length (blocks s) \<le> y"
    and f2: "frame (set_option (buffer_f (data_f v1))) s1 s2"
    and b2: "\<forall>y\<in>set_option (buffer_f (data_f v2)).
        y \<in> set_option (buffer_f (data_f v1)) \<or> length (blocks s1) \<le> y"
    by (simp_all add: touches_own_def)
  have f: "frame ?A s s2" using f1 f2 b1 by (rule frame_fresh)
  have "length (blocks s) \<le> length (blocks s1)" using f1 by (simp add: frame_def)
  then have "\<forall>y\<in>set_option (buffer_f (data_f v2)). y \<in> ?A \<or> length (blocks s) \<le> y"
    using b1 b2 by (metis le_trans)
  with f show ?thesis by (simp add: touches_own_def)
qed

lemma move_backward_loop_frame:
  "state_of (move_backward_loop T p first n d s) = Some s' \<Longrightarrow> frame (set_option p) s s'"
proof (induction n arbitrary: s d)
  case 0
  then show ?case by simp
next
  case (Suc n)
  then have d: "d \<noteq> 0" by (auto split: if_splits)
  show ?case
  proof (cases "move_assign T p (first + n) p (d - 1) s")
    case (Ok u s1)
    then have "frame (set_option p) s s1"
      using move_assign_frame[of T p "first + n" p "d - 1" s s1] by simp
    moreover have "frame (set_option p) s1 s'" using Suc Ok d by simp
    ultimately show ?thesis by (rule frame_trans)
  next
    case (Throw e s1)
    then show ?thesis
      using Suc.prems d move_assign_frame[of T p "first + n" p "d - 1" s s1] by simp
  next
    case UB
    then show ?thesis using Suc.prems d by simp
  qed
qed

lemma move_forward_loop_frame:
  "state_of (move_forward_loop T p i n j s) = Some s' \<Longrightarrow> frame (set_option p) s s'"
proof (induction n arbitrary: s i j)
  case 0
  then show ?case by simp
next
  case (Suc n)
  show ?case
  proof (cases "move_assign T p i p j s")
    case (Ok u s1)
    then have "frame (set_option p) s s1"
      using move_assign_frame[of T p i p j s s1] by simp
    moreover have "frame (set_option p) s1 s'" using Suc Ok by simp
    ultimately show ?thesis by (rule frame_trans)
  next
    case (Throw e s1)
    then show ?thesis
      using Suc.prems move_assign_frame[of T p i p j s s1] by simp
  next
    case UB
    then show ?thesis using Suc.prems by simp
  qed
qed

lemma value_loop_frame:
  "state_of (value_loop T q j k n s) = Some s' \<Longrightarrow> frame (set_option q) s s'"
proof (induction n arbitrary: s k)
  case 0
  then show ?case by simp
next
  case (Suc n)
  show ?case
  proof (cases "construct_at T ValueCtor (value_init T) q (j + k) s")
    case (Ok u s1)
    then have "frame (set_option q) s s1"
      using construct_at_frame[of T ValueCtor "value_init T" q "j + k" s s1] by simp
    moreover have "frame (set_option q) s1 s'" using Suc Ok by simp
    ultimately show ?thesis by (rule frame_trans)
  next
    case (Throw e s1)
    then have 1: "s1 = s" by (rule construct_at_Throw)
    from Suc.prems Throw obtain s2 where "destroy_n q j k s1 = Ok () s2" "s' = s2"
      by (auto split: outcome.splits)
    then show ?thesis using destroy_n_frame[of q j k s1 s2] 1 by simp
  next
    case UB
    then show ?thesis using Suc.prems by simp
  qed
qed

lemma construct_temporary_frame:
  "state_of (construct_temporary T g s) = Some s' \<Longrightarrow> frame {} s s'"
  by (auto simp: construct_temporary_def split: option.splits if_splits)


lemma fresh_frame:
  assumes "RawMemory_new T n s = Ok nd s1"
    and "frame (set_option p \<union> set_option (buffer_f nd)) s1 s2"
  shows "frame (set_option p) s s2"
proof -
  from RawMemory_new_Ok[OF assms(1)]
  have 1: "frame {} s s1" and fr: "\<forall>y\<in>set_option (buffer_f nd). length (blocks s) \<le> y" by simp_all
  from 1 have "frame (set_option p) s s1" by (rule frame_mono) simp
  then show ?thesis using assms(2) by (rule frame_fresh) (use fr in auto)
qed

lemma fresh_buffer:
  assumes "RawMemory_new T n s = Ok nd s1"
  shows "\<forall>y\<in>set_option (buffer_f nd). y \<in> A \<or> length (blocks s) \<le> y"
  using RawMemory_new_Ok[OF assms] by simp

lemma RawMemory_Swap_simp [simp]:
  "RawMemory_Swap (a, b) =
     (a\<lparr>buffer_f := buffer_f b, capacity_f := capacity_f b\<rparr>,
      b\<lparr>buffer_f := buffer_f a, capacity_f := capacity_f a\<rparr>)"
  by (simp add: RawMemory_Swap_def)

text \<open>The common end of a reallocation: destroy the old elements, swap, release the old block.\<close>

lemma finish_relocation:
  assumes "(case destroy_n p 0 n s2 of
              Ok _ s3 \<Rightarrow>
                (case RawMemory_Swap (data_f v, nd) of
                   (d, nd') \<Rightarrow>
                     (case RawMemory_destroy nd' s3 of
                        Ok _ s4 \<Rightarrow> Ok r (f d, s4)
                      | _ \<Rightarrow> UB))
            | _ \<Rightarrow> UB) = out"
    and "state_of out = Some (v', s')" and "p = buffer_f (data_f v)"
  shows "frame (set_option p) s2 s' \<and>
         v' = f ((data_f v)\<lparr>buffer_f := buffer_f nd, capacity_f := capacity_f nd\<rparr>)"
proof (cases "destroy_n p 0 n s2")
  case (Ok u s3)
  then have f3: "frame (set_option p) s2 s3" using destroy_n_frame[of p 0 n s2 s3] by simp
  let ?old = "nd\<lparr>buffer_f := buffer_f (data_f v), capacity_f := capacity_f (data_f v)\<rparr>"
  show ?thesis
  proof (cases "RawMemory_destroy ?old s3")
    case o: (Ok u' s4)
    then have "frame (set_option p) s3 s4"
      using RawMemory_destroy_frame[of ?old s3 s4] assms(3) by simp
    with f3 have "frame (set_option p) s2 s4" by (rule frame_trans)
    then show ?thesis using assms(1,2) Ok o by auto
  next
    case (Throw e s4)
    then show ?thesis using assms(1,2) Ok by auto
  next
    case UB
    then show ?thesis using assms(1,2) Ok by auto
  qed
next
  case (Throw e s3)
  then show ?thesis using assms(1,2) by auto
next
  case UB
  then show ?thesis using assms(1,2) by auto
qed

text \<open>The common unwinding: the local \<^verbatim>\<open>new_data\<close> is destroyed and the exception goes on.\<close>

lemma unwind:
  assumes "(case RawMemory_destroy nd s2 of Ok _ s3 \<Rightarrow> Throw e (v, s3) | _ \<Rightarrow> UB) = out"
    and "state_of out = Some (v', s')"
  shows "frame (set_option (buffer_f nd)) s2 s' \<and> v' = v"
proof (cases "RawMemory_destroy nd s2")
  case (Ok u s3)
  then show ?thesis using assms RawMemory_destroy_frame[of nd s2 s3] by auto
next
  case (Throw e s3)
  then show ?thesis using assms by auto
next
  case UB
  then show ?thesis using assms by auto
qed

lemma Reserve_touches:
  assumes "state_of (Reserve T k v s) = Some (v', s')"
  shows "touches_own v s v' s'"
proof (cases "capacity_f (data_f v) \<ge> k")
  case True
  then show ?thesis using assms by (simp add: Reserve_def)
next
  case False
  let ?p = "buffer_f (data_f v)"
  show ?thesis
  proof (cases "RawMemory_new T k s")
    case (Throw e s1)
    then show ?thesis using assms False RawMemory_new_Throw[OF Throw] by (simp add: Reserve_def)
  next
    case UB
    then show ?thesis using assms False by (simp add: Reserve_def)
  next
    case (Ok nd s1)
    let ?A = "set_option ?p \<union> set_option (buffer_f nd)"
    show ?thesis
    proof (cases "SafeInitializedRawMemory T ?p 0 (size_f v) (buffer_f nd) 0 s1")
      case (Throw e s2)
      then have f2: "frame ?A s1 s2"
        using SafeInitializedRawMemory_frame[of T ?p 0 "size_f v" "buffer_f nd" 0 s1 s2] by simp
      have "Reserve T k v s =
          (case RawMemory_destroy nd s2 of Ok _ s3 \<Rightarrow> Throw e (v, s3) | _ \<Rightarrow> UB)"
        using False Ok Throw by (simp add: Reserve_def)
      from unwind[OF this[symmetric] assms]
      have "frame (set_option (buffer_f nd)) s2 s'" "v' = v" by simp_all
      then have "frame ?A s2 s'" "v' = v" by (auto intro: frame_mono)
      with f2 have "frame ?A s1 s'" "v' = v" by (auto intro: frame_trans)
      then show ?thesis using fresh_frame[OF Ok] by (simp add: touches_own_def)
    next
      case UB
      then show ?thesis using assms False Ok by (simp add: Reserve_def)
    next
      case o: (Ok u s2)
      then have f2: "frame ?A s1 s2"
        using SafeInitializedRawMemory_frame[of T ?p 0 "size_f v" "buffer_f nd" 0 s1 s2] by simp
      have "Reserve T k v s =
          (case destroy_n ?p 0 (size_f v) s2 of
              Ok _ s3 \<Rightarrow>
                (case RawMemory_Swap (data_f v, nd) of
                   (d, nd') \<Rightarrow>
                     (case RawMemory_destroy nd' s3 of
                        Ok _ s4 \<Rightarrow> Ok () (v\<lparr>data_f := d\<rparr>, s4)
                      | _ \<Rightarrow> UB))
            | _ \<Rightarrow> UB)"
        using False Ok o by (simp add: Reserve_def)
      from finish_relocation[where f = "\<lambda>d. v\<lparr>data_f := d\<rparr>", OF this[symmetric] assms]
      have "frame (set_option ?p) s2 s'"
        "v' = v\<lparr>data_f := (data_f v)\<lparr>buffer_f := buffer_f nd, capacity_f := capacity_f nd\<rparr>\<rparr>"
        by simp_all
      then have "frame ?A s2 s'" "buffer_f (data_f v') = buffer_f nd" by (auto intro: frame_mono)
      with f2 have "frame ?A s1 s'" "buffer_f (data_f v') = buffer_f nd"
        by (auto intro: frame_trans)
      then show ?thesis
        using fresh_frame[OF Ok, of "buffer_f (data_f v)" s']
          fresh_buffer[OF Ok, of "set_option (buffer_f (data_f v))"]
        unfolding touches_own_def by simp
    qed
  qed
qed

lemma PushBack_forward_touches:
  assumes "state_of (PushBack_forward T g v s) = Some (v', s')"
  shows "touches_own v s v' s'"
proof (cases "size_f v < capacity_f (data_f v)")
  case True
  let ?p = "buffer_f (data_f v)"
  show ?thesis
  proof (cases "construct_from T g ?p (size_f v) s")
    case (Ok u s1)
    then have "frame (set_option ?p) s s1"
      using construct_from_frame[of T g ?p "size_f v" s s1] by simp
    then show ?thesis using assms True Ok
      by (auto simp: PushBack_forward_def intro: touches_own_same)
  next
    case (Throw e s1)
    then show ?thesis using assms True construct_from_Throw[OF Throw]
      by (simp add: PushBack_forward_def)
  next
    case UB
    then show ?thesis using assms True by (simp add: PushBack_forward_def)
  qed
next
  case False
  let ?n = "if size_f v = 0 then 1 else (size_f v * 2) mod 2 ^ 64"
  let ?p = "buffer_f (data_f v)"
  show ?thesis
  proof (cases "RawMemory_new T ?n s")
    case (Throw e s1)
    then show ?thesis using assms False RawMemory_new_Throw[OF Throw]
      by (simp add: PushBack_forward_def)
  next
    case UB
    then show ?thesis using assms False by (simp add: PushBack_forward_def)
  next
    case (Ok nd s1)
    let ?A = "set_option ?p \<union> set_option (buffer_f nd)"
    show ?thesis
    proof (cases "construct_from T g (buffer_f nd) (size_f v) s1")
      case (Throw e s2)
      then have s2: "s2 = s1" by (rule construct_from_Throw)
      have "PushBack_forward T g v s =
          (case RawMemory_destroy nd s2 of Ok _ s3 \<Rightarrow> Throw e (v, s3) | _ \<Rightarrow> UB)"
        using False Ok Throw by (simp add: PushBack_forward_def)
      from unwind[OF this[symmetric] assms]
      have "frame ?A s1 s'" "v' = v" using s2 by (auto intro: frame_mono)
      then show ?thesis using fresh_frame[OF Ok] by (simp add: touches_own_def)
    next
      case UB
      then show ?thesis using assms False Ok by (simp add: PushBack_forward_def)
    next
      case c: (Ok u2 s2)
      then have "frame (set_option (buffer_f nd)) s1 s2"
        using construct_from_frame[of T g "buffer_f nd" "size_f v" s1 s2] by simp
      then have f2: "frame ?A s1 s2" by (rule frame_mono) simp
      show ?thesis
      proof (cases "SafeInitializedRawMemory T ?p 0 (size_f v) (buffer_f nd) 0 s2")
        case (Throw e s3)
        then have "frame ?A s2 s3"
          using SafeInitializedRawMemory_frame[of T ?p 0 "size_f v" "buffer_f nd" 0 s2 s3] by simp
        with f2 have f3: "frame ?A s1 s3" by (rule frame_trans)
        have "PushBack_forward T g v s =
            (case RawMemory_destroy nd s3 of Ok _ s4 \<Rightarrow> Throw e (v, s4) | _ \<Rightarrow> UB)"
          using False Ok c Throw by (simp add: PushBack_forward_def)
        from unwind[OF this[symmetric] assms]
        have "frame ?A s3 s'" "v' = v" by (auto intro: frame_mono)
        with f3 have "frame ?A s1 s'" "v' = v" by (auto intro: frame_trans)
        then show ?thesis using fresh_frame[OF Ok] by (simp add: touches_own_def)
      next
        case UB
        then show ?thesis using assms False Ok c by (simp add: PushBack_forward_def)
      next
        case d: (Ok u3 s3)
        then have "frame ?A s2 s3"
          using SafeInitializedRawMemory_frame[of T ?p 0 "size_f v" "buffer_f nd" 0 s2 s3] by simp
        with f2 have f3: "frame ?A s1 s3" by (rule frame_trans)
        have "PushBack_forward T g v s =
            (case destroy_n ?p 0 (size_f v) s3 of
               Ok _ s4 \<Rightarrow>
                 (case RawMemory_Swap (data_f v, nd) of
                    (d, nd') \<Rightarrow>
                      (case RawMemory_destroy nd' s4 of
                         Ok _ s5 \<Rightarrow>
                           Ok () (v\<lparr>data_f := d, size_f := (size_f v + 1) mod 2 ^ 64\<rparr>, s5)
                       | _ \<Rightarrow> UB))
             | _ \<Rightarrow> UB)"
          using False Ok c d by (simp add: PushBack_forward_def)
        from finish_relocation[where f = "\<lambda>d. v\<lparr>data_f := d, size_f := (size_f v + 1) mod 2 ^ 64\<rparr>",
            OF this[symmetric] assms]
        have "frame (set_option ?p) s3 s'" "buffer_f (data_f v') = buffer_f nd" by simp_all
        then have "frame ?A s3 s'" "buffer_f (data_f v') = buffer_f nd" by (auto intro: frame_mono)
        with f3 have "frame ?A s1 s'" "buffer_f (data_f v') = buffer_f nd"
          by (auto intro: frame_trans)
        then show ?thesis
          using fresh_frame[OF Ok, of "buffer_f (data_f v)" s']
            fresh_buffer[OF Ok, of "set_option (buffer_f (data_f v))"]
          unfolding touches_own_def by simp
      qed
    qed
  qed
qed


lemma EmplaceWithReallocate_touches:
  assumes "state_of (EmplaceWithReallocate T pos g v s) = Some (v', s')"
  shows "touches_own v s v' s'"
proof -
  let ?n = "if size_f v = 0 then 1 else (size_f v * 2) mod 2 ^ 64"
  let ?p = "buffer_f (data_f v)"
  let ?i = "nat (to_int (int pos))"
  show ?thesis
  proof (cases "RawMemory_new T ?n s")
    case (Throw e s1)
    then show ?thesis using assms RawMemory_new_Throw[OF Throw]
      by (simp add: EmplaceWithReallocate_def)
  next
    case UB
    then show ?thesis using assms by (simp add: EmplaceWithReallocate_def)
  next
    case (Ok nd s1)
    let ?A = "set_option ?p \<union> set_option (buffer_f nd)"
    have "to_int (int pos) < 0 \<Longrightarrow> EmplaceWithReallocate T pos g v s = UB"
      using Ok by (simp add: EmplaceWithReallocate_def Let_def)
    with assms have ix: "\<not> to_int (int pos) < 0" by auto
    show ?thesis
    proof (cases "construct_from T g (buffer_f nd) ?i s1")
      case (Throw e s2)
      then have s2: "s2 = s1" by (rule construct_from_Throw)
      have "EmplaceWithReallocate T pos g v s =
          (case RawMemory_destroy nd s2 of Ok _ s3 \<Rightarrow> Throw e (v, s3) | _ \<Rightarrow> UB)"
        using ix Ok Throw by (simp add: EmplaceWithReallocate_def Let_def)
      from unwind[OF this[symmetric] assms]
      have "frame ?A s1 s'" "v' = v" using s2 by (auto intro: frame_mono)
      then show ?thesis using fresh_frame[OF Ok] by (simp add: touches_own_def)
    next
      case UB
      then show ?thesis using assms ix Ok by (simp add: EmplaceWithReallocate_def Let_def)
    next
      case c: (Ok u2 s2)
      then have "frame (set_option (buffer_f nd)) s1 s2"
        using construct_from_frame[of T g "buffer_f nd" ?i s1 s2] by simp
      then have f2: "frame ?A s1 s2" by (rule frame_mono) simp
      show ?thesis
      proof (cases "SafeInitializedRawMemory T ?p 0 ?i (buffer_f nd) 0 s2")
        case (Throw e s3)
        then have "frame ?A s2 s3"
          using SafeInitializedRawMemory_frame[of T ?p 0 ?i "buffer_f nd" 0 s2 s3] by simp
        with f2 have f3: "frame ?A s1 s3" by (rule frame_trans)
        have "EmplaceWithReallocate T pos g v s =
            (case RawMemory_destroy nd s3 of Ok _ s4 \<Rightarrow> Throw e (v, s4) | _ \<Rightarrow> UB)"
          using ix Ok c Throw by (simp add: EmplaceWithReallocate_def Let_def)
        from unwind[OF this[symmetric] assms]
        have "frame ?A s3 s'" "v' = v" by (auto intro: frame_mono)
        with f3 have "frame ?A s1 s'" "v' = v" by (auto intro: frame_trans)
        then show ?thesis using fresh_frame[OF Ok] by (simp add: touches_own_def)
      next
        case UB
        then show ?thesis using assms ix Ok c by (simp add: EmplaceWithReallocate_def Let_def)
      next
        case d: (Ok u3 s3)
        then have "frame ?A s2 s3"
          using SafeInitializedRawMemory_frame[of T ?p 0 ?i "buffer_f nd" 0 s2 s3] by simp
        with f2 have f3: "frame ?A s1 s3" by (rule frame_trans)
        let ?c = "(size_f v + 2 ^ 64 - ?i) mod 2 ^ 64"
        show ?thesis
        proof (cases "SafeInitializedRawMemory T ?p ?i ?c (buffer_f nd) (?i + 1) s3")
          case (Throw e s4)
          then have "frame ?A s3 s4"
            using SafeInitializedRawMemory_frame[of T ?p ?i ?c "buffer_f nd" "?i + 1" s3 s4]
            by simp
          with f3 have f4: "frame ?A s1 s4" by (rule frame_trans)
          have "EmplaceWithReallocate T pos g v s =
              (case RawMemory_destroy nd s4 of Ok _ s5 \<Rightarrow> Throw e (v, s5) | _ \<Rightarrow> UB)"
            using ix Ok c d Throw by (simp add: EmplaceWithReallocate_def Let_def)
          from unwind[OF this[symmetric] assms]
          have "frame ?A s4 s'" "v' = v" by (auto intro: frame_mono)
          with f4 have "frame ?A s1 s'" "v' = v" by (auto intro: frame_trans)
          then show ?thesis using fresh_frame[OF Ok] by (simp add: touches_own_def)
        next
          case UB
          then show ?thesis using assms ix Ok c d
            by (simp add: EmplaceWithReallocate_def Let_def)
        next
          case e: (Ok u4 s4)
          then have "frame ?A s3 s4"
            using SafeInitializedRawMemory_frame[of T ?p ?i ?c "buffer_f nd" "?i + 1" s3 s4]
            by simp
          with f3 have f4: "frame ?A s1 s4" by (rule frame_trans)
          have "EmplaceWithReallocate T pos g v s =
              (case destroy_n ?p 0 (size_f v) s4 of
                 Ok _ s5 \<Rightarrow>
                   (case RawMemory_Swap (data_f v, nd) of
                      (d, nd') \<Rightarrow>
                        (case RawMemory_destroy nd' s5 of
                           Ok _ s6 \<Rightarrow>
                             Ok ?i (v\<lparr>data_f := d, size_f := (size_f v + 1) mod 2 ^ 64\<rparr>, s6)
                         | _ \<Rightarrow> UB))
               | _ \<Rightarrow> UB)"
            using ix Ok c d e by (simp add: EmplaceWithReallocate_def Let_def)
          from finish_relocation[where f = "\<lambda>d. v\<lparr>data_f := d, size_f := (size_f v + 1) mod 2 ^ 64\<rparr>",
              OF this[symmetric] assms]
          have "frame (set_option ?p) s4 s'" "buffer_f (data_f v') = buffer_f nd" by simp_all
          then have "frame ?A s4 s'" "buffer_f (data_f v') = buffer_f nd"
            by (auto intro: frame_mono)
          with f4 have "frame ?A s1 s'" "buffer_f (data_f v') = buffer_f nd"
            by (auto intro: frame_trans)
          then show ?thesis
            using fresh_frame[OF Ok, of "buffer_f (data_f v)" s']
              fresh_buffer[OF Ok, of "set_option (buffer_f (data_f v))"]
            unfolding touches_own_def by simp
        qed
      qed
    qed
  qed
qed

lemma frameD_move_construct:
  "move_construct T p i p j s = Ok u s' \<Longrightarrow> frame (set_option p) s s'"
  "move_construct T p i p j s = Throw e s' \<Longrightarrow> frame (set_option p) s s'"
  using move_construct_frame[of T p i p j s s'] by simp_all

lemma frameD_move_backward:
  "move_backward T p i l d s = Ok u s' \<Longrightarrow> frame (set_option p) s s'"
  "move_backward T p i l d s = Throw e s' \<Longrightarrow> frame (set_option p) s s'"
  using move_backward_loop_frame[of T p i "l - i" d s s']
  by (simp_all add: move_backward_def split: if_splits)

lemma frameD_std_move:
  "std_move T p i l d s = Ok u s' \<Longrightarrow> frame (set_option p) s s'"
  "std_move T p i l d s = Throw e s' \<Longrightarrow> frame (set_option p) s s'"
  using move_forward_loop_frame[of T p i "l - i" d s s']
  by (simp_all add: std_move_def split: if_splits)

lemma frameD_construct_temporary:
  "construct_temporary T g s = Ok x s' \<Longrightarrow> frame A s s'"
  "construct_temporary T g s = Throw e s' \<Longrightarrow> frame A s s'"
  using construct_temporary_frame[of T g s s'] by (auto intro: frame_mono)

lemma frameD_assign_at:
  "assign_at T a x p i s = Ok u s' \<Longrightarrow> frame (set_option p) s s'"
  "assign_at T a x p i s = Throw e s' \<Longrightarrow> frame (set_option p) s s'"
  using assign_at_frame[of T a x p i s s'] by simp_all

lemma frameD_construct_from:
  "construct_from T g p i s = Ok u s' \<Longrightarrow> frame (set_option p) s s'"
  "construct_from T g p i s = Throw e s' \<Longrightarrow> frame (set_option p) s s'"
  using construct_from_frame[of T g p i s s'] by simp_all

lemma frameD_destroy_n:
  "destroy_n p i n s = Ok u s' \<Longrightarrow> frame (set_option p) s s'"
  "destroy_n p i n s = Throw e s' \<Longrightarrow> frame (set_option p) s s'"
  using destroy_n_frame[of p i n s s'] by simp_all

lemma frameD_destroy_at:
  "destroy_at p i s = Ok u s' \<Longrightarrow> frame (set_option p) s s'"
  "destroy_at p i s = Throw e s' \<Longrightarrow> frame (set_option p) s s'"
  using destroy_at_frame[of p i s s'] by simp_all

lemma frameD_value_construct:
  "uninitialized_value_construct_n T p i n s = Ok u s' \<Longrightarrow> frame (set_option p) s s'"
  "uninitialized_value_construct_n T p i n s = Throw e s' \<Longrightarrow> frame (set_option p) s s'"
  using value_loop_frame[of T p i 0 n s s'] by (simp_all add: uninitialized_value_construct_n_def)

lemma EmplaceWithoutReallocate_touches:
  assumes "state_of (EmplaceWithoutReallocate T pos g v s) = Some (v', s')"
  shows "touches_own v s v' s'"
proof -
  have "frame (set_option (buffer_f (data_f v))) s s' \<and>
      buffer_f (data_f v') = buffer_f (data_f v)"
    using assms
    apply (simp add: EmplaceWithoutReallocate_def Let_def RawMemory_at_def
        split: if_splits option.splits outcome.splits prod.splits)
                 apply (auto dest!: frameD_move_construct frameD_move_backward
        frameD_construct_temporary[where A = "set_option (buffer_f (data_f v))"]
        frameD_assign_at frameD_construct_from intro: frame_trans)
     apply (blast intro: frame_trans)+
    done
  then show ?thesis by (simp add: touches_own_same)
qed

lemma Emplace_touches:
  assumes "state_of (Emplace T pos g v s) = Some (v', s')"
  shows "touches_own v s v' s'"
  using assms EmplaceWithoutReallocate_touches EmplaceWithReallocate_touches
  by (auto simp: Emplace_def split: if_splits)

lemma state_of_unit_result [simp]: "state_of (unit_result out) = state_of out"
  by (cases out) (simp_all add: unit_result_def)

lemma PushBack_touches:
  assumes "state_of (PushBack T g v s) = Some (v', s')"
  shows "touches_own v s v' s'"
proof -
  have "state_of (PushBack T g v s) = state_of (Emplace T (size_f v) (const_ref g) v s)"
    by (simp add: PushBack_def EmplaceBack_def split: outcome.splits)
  then show ?thesis using assms Emplace_touches by metis
qed

lemma PopBack_touches:
  assumes "state_of (PopBack v s) = Some (v', s')"
  shows "touches_own v s v' s'"
proof -
  have "frame (set_option (buffer_f (data_f v))) s s' \<and>
      buffer_f (data_f v') = buffer_f (data_f v)"
    using assms
    by (auto simp: PopBack_def split: if_splits outcome.splits dest!: frameD_destroy_at)
  then show ?thesis by (simp add: touches_own_same)
qed

lemma Erase_touches:
  assumes "state_of (Erase T pos v s) = Some (v', s')"
  shows "touches_own v s v' s'"
proof -
  have "frame (set_option (buffer_f (data_f v))) s s' \<and>
      buffer_f (data_f v') = buffer_f (data_f v)"
    using assms
    by (auto simp: Erase_def Let_def split: if_splits outcome.splits
        dest!: frameD_std_move frameD_destroy_at intro: frame_trans)
  then show ?thesis by (simp add: touches_own_same)
qed

lemma assign_element_touches:
  assumes "state_of (assign_element T i x v s) = Some (v', s')"
  shows "touches_own v s v' s'"
proof -
  have "frame (set_option (buffer_f (data_f v))) s s' \<and>
      buffer_f (data_f v') = buffer_f (data_f v)"
    using assms
    by (auto simp: assign_element_def Vector_at_def RawMemory_at_def
        split: if_splits option.splits outcome.splits prod.splits dest!: frameD_assign_at)
  then show ?thesis by (simp add: touches_own_same)
qed

lemma touchesD_Reserve:
  "Reserve T k v s = Ok u (v', s') \<Longrightarrow> touches_own v s v' s'"
  "Reserve T k v s = Throw e (v', s') \<Longrightarrow> touches_own v s v' s'"
  using Reserve_touches[of T k v s v' s'] by simp_all

lemma touches_own_step:
  "touches_own v s v1 s1 \<Longrightarrow> frame (set_option (buffer_f (data_f v1))) s1 s2 \<Longrightarrow>
   buffer_f (data_f v2) = buffer_f (data_f v1) \<Longrightarrow> touches_own v s v2 s2"
  by (erule touches_own_trans) (simp add: touches_own_same)

lemma Resize_touches:
  assumes "state_of (Resize T n v s) = Some (v', s')"
  shows "touches_own v s v' s'"
  using assms
  apply (simp add: Resize_def split: outcome.splits prod.splits if_splits)
  apply (auto dest!: touchesD_Reserve frameD_value_construct frameD_destroy_n
      intro: touches_own_step touches_own_trans)
  done

lemma mutate_touches:
  assumes "state_of (mutate T m v s) = Some (v', s')"
  shows "touches_own v s v' s'"
  using assms PushBack_touches PushBack_forward_touches PopBack_touches Reserve_touches
    Resize_touches Emplace_touches Erase_touches assign_element_touches
  by (cases m) auto

lemma mutate_all_touches:
  assumes "state_of (mutate_all T ms v s) = Some (v', s')"
  shows "touches_own v s v' s'"
  using assms
proof (induction ms arbitrary: v s)
  case Nil
  then show ?case by simp
next
  case (Cons m ms)
  show ?case
  proof (cases "mutate T m v s")
    case (Ok u vs)
    obtain v1 s1 where vs: "vs = (v1, s1)" by (cases vs)
    have 1: "touches_own v s v1 s1" using mutate_touches[of T m v s v1 s1] Ok vs by simp
    have "touches_own v1 s1 v' s'" using Cons Ok vs by simp
    with 1 show ?thesis by (rule touches_own_trans)
  next
    case (Throw e vs)
    then show ?thesis using Cons.prems mutate_touches[of T m v s v' s'] by simp
  next
    case UB
    then show ?thesis using Cons.prems by simp
  qed
qed

lemma elems_size_0: "size_f v = 0 \<Longrightarrow> elems s v = []"
  by (simp add: elems_def split: option.splits)

lemma operator_delete_Ok:
  "block s a = Some b \<Longrightarrow> \<exists>s'. operator_delete (Some a) s = Ok () s'"
  by (simp add: operator_delete_def)

lemma Vector_copy_cases:
  assumes "wf T s c"
  shows "(\<exists>e s1. Vector_copy T c s = Throw e s1 \<and> \<not> never_throws T \<and> frame {} s s1) \<or>
         (\<exists>c' s1. Vector_copy T c s = Ok c' s1 \<and> size_f c' = size_f c \<and>
            capacity_f (data_f c') = size_f c \<and> wf T s1 c' \<and> elems s1 c' = elems s c \<and>
            frame {} s s1 \<and>
            (\<forall>y\<in>set_option (buffer_f (data_f c')). length (blocks s) \<le> y) \<and>
            trace s1 = trace s @
              (if size_f c = 0 then []
               else OperatorNew (length (blocks s)) (size_f c) #
                    map (\<lambda>m. Constructed CopyCtor (Slot (length (blocks s)) m) (elems s c ! m))
                      [0..<size_f c]))"
proof (cases "size_f c = 0")
  case True
  have "Vector_copy T c s = Ok \<lparr>data_f = \<lparr>buffer_f = None, capacity_f = 0\<rparr>, size_f = 0\<rparr> s"
    using True by (simp add: Vector_copy_def RawMemory_new_def Allocate_def uninitialized_copy_n_def)
  moreover have "wf T s \<lparr>data_f = \<lparr>buffer_f = None, capacity_f = 0\<rparr>, size_f = 0\<rparr>"
    using assms by (simp add: wf_def)
  ultimately show ?thesis using True by (simp add: elems_size_0 frame_refl)
next
  case False
  let ?n = "size_f c"
  let ?q = "length (blocks s)"
  from False assms obtain a where a: "buffer_f (data_f c) = Some a"
    using wf_NoneD[OF assms] by (cases "buffer_f (data_f c)") auto
  from wf_SomeD[OF assms a] obtain ba where ba: "block s a = Some ba"
    "length ba = capacity_f (data_f c)" "?n \<le> capacity_f (data_f c)"
    "capacity_f (data_f c) < 2 ^ 63" "\<forall>m<?n. ba ! m \<noteq> None" by blast
  have sz: "0 < size_of T" and cap: "capacity_f (data_f c) * size_of T < 2 ^ 63"
    using assms by (simp_all add: wf_def)
  have "?n * size_of T \<le> capacity_f (data_f c) * size_of T"
    using ba(3) by (rule mult_le_mono1)
  then have fit: "?n * size_of T < 2 ^ 63" using cap by (rule le_less_trans)
  have n63: "?n < 2 ^ 63" using ba(3,4) by simp
  have aq: "a \<noteq> ?q" using block_Some_less[OF ba(1)] by simp
  have el: "elems s c = map the (take ?n ba)" using a ba(1) by (rule elems_Some)
  from RawMemory_new_cases[OF False sz fit, of s]
  show ?thesis
  proof (elim disjE exE conjE)
    assume "RawMemory_new T ?n s = Throw BadAlloc s" "\<not> (?n < 2 ^ 63 \<and> never_throws T)"
    then have "Vector_copy T c s = Throw BadAlloc s" "\<not> never_throws T"
      using n63 by (simp_all add: Vector_copy_def)
    then show ?thesis by (simp add: frame_refl)
  next
    fix s0
    assume r: "RawMemory_new T ?n s = Ok \<lparr>buffer_f = Some ?q, capacity_f = ?n\<rparr> s0"
      "\<forall>x. block s0 x = (if x = ?q then Some (replicate ?n None) else block s x)"
      "trace s0 = trace s @ [OperatorNew ?q ?n]"
      "length (blocks s0) = Suc ?q"
    let ?nd = "\<lparr>buffer_f = Some ?q, capacity_f = ?n\<rparr>"
    have b0: "block s0 a = Some ba" "block s0 ?q = Some (replicate ?n None)"
      using r(2) aq ba(1) by simp_all
    have *: "0 + 0 + ?n \<le> length ba" "0 + 0 + ?n \<le> length (replicate ?n (None :: 'a option))"
      "\<forall>m. 0 \<le> m \<and> m < 0 + ?n \<longrightarrow> ba ! (0 + m) \<noteq> None"
      "\<forall>m<0. replicate ?n (None :: 'a option) ! (0 + m) \<noteq> None"
      "\<forall>m. 0 \<le> m \<and> m < 0 + ?n \<longrightarrow> replicate ?n (None :: 'a option) ! (0 + m) = None"
      using ba by auto
    have eq: "Vector_copy T c s =
        (case copy_loop T (Some a) 0 (Some ?q) 0 0 ?n s0 of
           Ok _ s2 \<Rightarrow> Ok \<lparr>data_f = ?nd, size_f = ?n\<rparr> s2
         | Throw e s2 \<Rightarrow> (case RawMemory_destroy ?nd s2 of Ok _ s3 \<Rightarrow> Throw e s3 | _ \<Rightarrow> UB)
         | UB \<Rightarrow> UB)"
      using r(1) a by (simp add: Vector_copy_def uninitialized_copy_n_def)
    from copy_loop_cases[OF aq b0 *, of T]
    show ?thesis
    proof (elim disjE exE conjE)
      fix s1 bq'
      assume o: "copy_loop T (Some a) 0 (Some ?q) 0 0 ?n s0 = Ok () s1"
        "\<forall>y. block s1 y = (if y = ?q then Some bq' else block s0 y)"
        "length bq' = length (replicate ?n (None :: 'a option))"
        "\<forall>m<length (replicate ?n (None :: 'a option)). bq' ! m =
           (if 0 + 0 \<le> m \<and> m < 0 + 0 + ?n then ba ! (0 + (m - 0)) else replicate ?n None ! m)"
        "trace s1 = trace s0 @
           map (\<lambda>m. Constructed CopyCtor (Slot ?q (0 + m)) (the (ba ! (0 + m)))) [0..<0 + ?n]"
      let ?c' = "\<lparr>data_f = ?nd, size_f = ?n\<rparr>"
      have 1: "Vector_copy T c s = Ok ?c' s1" using eq o(1) by simp
      have bq: "block s1 ?q = Some bq'" "length bq' = ?n" "\<forall>m<?n. bq' ! m = ba ! m"
        using o(2,3,4) by simp_all
      have 2: "wf T s1 ?c'"
        by (rule wfI[where a = ?q and b = bq']) (use bq ba(5) fit sz in simp_all)
      have "elems s1 ?c' = map the (take ?n bq')" using bq(1) by (simp add: elems_Some)
      also have "take ?n bq' = take ?n ba"
        by (rule take_eqI) (use bq ba in simp_all)
      finally have 3: "elems s1 ?c' = elems s c" using el by simp
      have "frame {} s s0" using RawMemory_new_Ok[OF r(1)] by simp
      moreover have "frame (set_option (Some ?q)) s0 s1"
        using copy_loop_frame[of T "Some a" 0 "Some ?q" 0 0 ?n s0 s1] o(1) by simp
      ultimately have 4: "frame {} s s1" by (rule frame_fresh) simp
      have "map (\<lambda>m. Constructed CopyCtor (Slot ?q (0 + m)) (the (ba ! (0 + m)))) [0..<0 + ?n]
          = map (\<lambda>m. Constructed CopyCtor (Slot ?q m) (elems s c ! m)) [0..<?n]"
        using el ba(2,3) by simp
      then have 5: "trace s1 = trace s @ OperatorNew ?q ?n #
          map (\<lambda>m. Constructed CopyCtor (Slot ?q m) (elems s c ! m)) [0..<?n]"
        using o(5) r(3) by simp
      show ?thesis
        apply (rule disjI2)
        apply (rule exI[of _ ?c'], rule exI[of _ s1])
        using 1 2 3 4 5 False apply simp
        done
    next
      fix s1 bq' evs
      assume t: "copy_loop T (Some a) 0 (Some ?q) 0 0 ?n s0 = Throw ElementException s1"
        "\<not> never_throws T"
        "\<forall>y. block s1 y = (if y = ?q then Some bq' else block s0 y)"
      have "block s1 ?q = Some bq'" using t(3) by simp
      from operator_delete_Ok[OF this] obtain s2
        where d: "RawMemory_destroy ?nd s1 = Ok () s2"
        by (auto simp: RawMemory_destroy_def Deallocate_def)
      have 1: "Vector_copy T c s = Throw ElementException s2" using eq t(1) d by simp
      have "frame (set_option (buffer_f ?nd)) s0 s1"
        using copy_loop_frame[of T "Some a" 0 "Some ?q" 0 0 ?n s0 s1] t(1) by simp
      from unwind_new_data[OF r(1) this d] have "frame {} s s2" .
      with 1 t(2) show ?thesis by simp
    qed
  qed
qed


lemma assign_at_cases:
  assumes "block s q = Some bq" "j < length bq" "bq ! j \<noteq> None"
  shows "(assign_at T g x (Some q) j s = Throw ElementException s \<and> \<not> never_throws T) \<or>
         (\<exists>s'. assign_at T g x (Some q) j s = Ok () s' \<and>
            (\<forall>y. block s' y = (if y = q then Some (bq[j := Some x]) else block s y)) \<and>
            length (blocks s') = length (blocks s))"
  using assms
  by (auto simp: assign_at_def object_def raises_def never_throws_def)

lemma copy_n_cases:
  assumes "a \<noteq> q" "block s a = Some ba" "block s q = Some bq"
    and "i + n \<le> length ba" "j + n \<le> length bq"
    and "\<forall>m<n. ba ! (i + m) \<noteq> None" "\<forall>m<n. bq ! (j + m) \<noteq> None"
  shows "(\<exists>s' bq'. copy_n T (Some a) i n (Some q) j s = Ok () s' \<and>
            (\<forall>y. block s' y = (if y = q then Some bq' else block s y)) \<and>
            length bq' = length bq \<and>
            (\<forall>m<length bq. bq' ! m =
                (if j \<le> m \<and> m < j + n then ba ! (i + (m - j)) else bq ! m)) \<and>
            length (blocks s') = length (blocks s))
       \<or> (\<exists>s'. copy_n T (Some a) i n (Some q) j s = Throw ElementException s' \<and>
            \<not> never_throws T)"
  using assms
proof (induction n arbitrary: s i j bq)
  case 0
  then show ?case by (auto intro!: exI[of _ bq])
next
  case (Suc n)
  note ne = Suc.prems(1) and ba = Suc.prems(2) and bq = Suc.prems(3)
  from Suc.prems(6)[rule_format, of 0] obtain x where x: "ba ! i = Some x" by auto
  have il: "i < length ba" and jl: "j < length bq" using Suc.prems(4,5) by auto
  have live: "bq ! j \<noteq> None" using Suc.prems(7)[rule_format, of 0] by simp
  have obj: "object s (Some a) i = Some x" using ba il x by (simp add: object_Some)
  from assign_at_cases[OF bq jl live, of T CopyAsg x]
  show ?case
  proof (elim disjE exE conjE)
    assume "assign_at T CopyAsg x (Some q) j s = Throw ElementException s" "\<not> never_throws T"
    then show ?thesis using obj by (simp add: copy_assign_def)
  next
    fix s1
    assume o: "assign_at T CopyAsg x (Some q) j s = Ok () s1"
      "\<forall>y. block s1 y = (if y = q then Some (bq[j := Some x]) else block s y)"
      "length (blocks s1) = length (blocks s)"
    let ?bq = "bq[j := Some x]"
    have eq: "copy_n T (Some a) i (Suc n) (Some q) j s = copy_n T (Some a) (Suc i) n (Some q) (Suc j) s1"
      using obj o(1) by (simp add: copy_assign_def)
    have b1: "block s1 a = Some ba" "block s1 q = Some ?bq" using o(2) ne ba by simp_all
    have *: "Suc i + n \<le> length ba" "Suc j + n \<le> length ?bq"
      "\<forall>m<n. ba ! (Suc i + m) \<noteq> None" "\<forall>m<n. ?bq ! (Suc j + m) \<noteq> None"
      using Suc.prems(4,5) Suc.prems(6)[rule_format, of "Suc _"]
        Suc.prems(7)[rule_format, of "Suc _"] by simp_all
    from Suc.IH[OF ne b1 *]
    show ?thesis
    proof (elim disjE exE conjE)
      fix s' bq'
      assume r: "copy_n T (Some a) (Suc i) n (Some q) (Suc j) s1 = Ok () s'"
        "\<forall>y. block s' y = (if y = q then Some bq' else block s1 y)"
        "length bq' = length ?bq"
        "\<forall>m<length ?bq. bq' ! m =
           (if Suc j \<le> m \<and> m < Suc j + n then ba ! (Suc i + (m - Suc j)) else ?bq ! m)"
        "length (blocks s') = length (blocks s1)"
      have 1: "\<forall>y. block s' y = (if y = q then Some bq' else block s y)"
        using r(2) o(2) by simp
      have 2: "\<forall>m<length bq. bq' ! m =
          (if j \<le> m \<and> m < j + Suc n then ba ! (i + (m - j)) else bq ! m)"
      proof (intro allI impI)
        fix m assume m: "m < length bq"
        show "bq' ! m = (if j \<le> m \<and> m < j + Suc n then ba ! (i + (m - j)) else bq ! m)"
        proof (cases "m = j")
          case True
          then show ?thesis using r(4) jl x by simp
        next
          case False
          have "Suc j \<le> m \<Longrightarrow> Suc i + (m - Suc j) = i + (m - j)" by simp
          then show ?thesis using r(4) m False by auto
        qed
      qed
      show ?thesis
        apply (rule disjI1)
        apply (rule exI[of _ s'], rule exI[of _ bq'])
        using eq r(1,3,5) o(3) 1 2 apply simp
        done
    next
      fix s'
      assume "copy_n T (Some a) (Suc i) n (Some q) (Suc j) s1 = Throw ElementException s'"
        "\<not> never_throws T"
      then show ?thesis using eq by simp
    qed
  qed
qed

lemma copy_n_frame:
  "state_of (copy_n T p i n q j s) = Some s' \<Longrightarrow> frame (set_option q) s s'"
proof (induction n arbitrary: s i j)
  case 0
  then show ?case by simp
next
  case (Suc n)
  show ?case
  proof (cases "copy_assign T p i q j s")
    case (Ok u s1)
    then have "frame (set_option q) s s1" using copy_assign_frame[of T p i q j s s1] by simp
    moreover have "frame (set_option q) s1 s'" using Suc Ok by simp
    ultimately show ?thesis by (rule frame_trans)
  next
    case (Throw e s1)
    then show ?thesis using Suc.prems copy_assign_frame[of T p i q j s s1] by simp
  next
    case UB
    then show ?thesis using Suc.prems by simp
  qed
qed

lemma frame_blockI:
  "\<forall>y. block s' y = (if y = q then c else block s y) \<Longrightarrow>
   length (blocks s') = length (blocks s) \<Longrightarrow> frame {q} s s'"
  by (simp add: frame_def)

lemma Vector_destroy_Ok:
  assumes "wf T s v"
  shows "\<exists>s'. Vector_destroy v s = Ok () s' \<and> frame (set_option (buffer_f (data_f v))) s s'"
proof (cases "buffer_f (data_f v)")
  case None
  then show ?thesis
    by (simp add: Vector_destroy_def RawMemory_destroy_def Deallocate_def operator_delete_def)
next
  case (Some a)
  from wf_SomeD[OF assms Some] obtain b where b: "block s a = Some b"
    "length b = capacity_f (data_f v)" "size_f v \<le> capacity_f (data_f v)"
    "\<forall>m<size_f v. b ! m \<noteq> None" by blast
  have "0 + size_f v \<le> length b" "\<forall>m<size_f v. b ! (0 + m) \<noteq> None" using b by simp_all
  from destroy_n_cases[OF b(1) this] obtain s1 b' where
    d: "destroy_n (Some a) 0 (size_f v) s = Ok () s1" and
    b': "\<forall>y. block s1 y = (if y = a then Some b' else block s y)" by blast
  have "block s1 a = Some b'" using b' by simp
  from operator_delete_Ok[OF this] obtain s2 where
    e: "RawMemory_destroy (data_f v) s1 = Ok () s2"
    using Some by (auto simp: RawMemory_destroy_def Deallocate_def)
  have "frame (set_option (Some a)) s s1" using destroy_n_frame[of "Some a" 0 "size_f v" s s1] d
    by simp
  moreover have "frame (set_option (Some a)) s1 s2"
    using RawMemory_destroy_frame[of "data_f v" s1 s2] e Some by simp
  ultimately have "frame (set_option (Some a)) s s2" by (rule frame_trans)
  moreover have "Vector_destroy v s = Ok () s2" using Some d e by (simp add: Vector_destroy_def)
  ultimately show ?thesis using Some by simp
qed


lemma copied_into:
  assumes "buffer_f (data_f v) = Some q" "block s' q = Some bq'"
    "length bq' = capacity_f (data_f v)" "wf T s v"
    "n \<le> capacity_f (data_f v)"
    "buffer_f (data_f r) = Some a" "block s a = Some ba" "n \<le> length ba" "size_f r = n"
    "\<forall>m<n. ba ! m \<noteq> None"
    "\<forall>m<n. bq' ! m = ba ! m" "\<forall>m<length bq'. n \<le> m \<longrightarrow> bq' ! m = None"
  shows "wf T s' (v\<lparr>size_f := n\<rparr>) \<and> elems s' (v\<lparr>size_f := n\<rparr>) = elems s r"
proof
  have "0 < size_of T" "capacity_f (data_f v) * size_of T < 2 ^ 63"
    using assms(4) by (simp_all add: wf_def)
  then show "wf T s' (v\<lparr>size_f := n\<rparr>)"
    by (intro wfI[where a = q and b = bq']) (use assms in simp_all)
  have "elems s' (v\<lparr>size_f := n\<rparr>) = map the (take n bq')"
    using assms(1,2) by (simp add: elems_Some)
  also have "take n bq' = take n ba"
    by (rule take_eqI) (use assms in simp_all)
  also have "map the (take n ba) = elems s r"
    using assms(6,7,9) by (simp add: elems_Some)
  finally show "elems s' (v\<lparr>size_f := n\<rparr>) = elems s r" .
qed

lemma assign_copy_in_place:
  assumes ne: "this \<noteq> rhs" and wv: "wf T s (vs this)" and wr: "wf T s (vs rhs)"
    and dj: "set_option (buffer_f (data_f (vs this))) \<inter>
             set_option (buffer_f (data_f (vs rhs))) = {}"
    and fit: "size_f (vs rhs) \<le> capacity_f (data_f (vs this))"
  shows "(\<exists>s1. assign_copy T this rhs vs s = Throw ElementException (vs, s1) \<and>
            \<not> never_throws T \<and> frame (set_option (buffer_f (data_f (vs this)))) s s1) \<or>
         (\<exists>s1. assign_copy T this rhs vs s =
                 Ok () (vs(this := (vs this)\<lparr>size_f := size_f (vs rhs)\<rparr>), s1) \<and>
            wf T s1 ((vs this)\<lparr>size_f := size_f (vs rhs)\<rparr>) \<and>
            elems s1 ((vs this)\<lparr>size_f := size_f (vs rhs)\<rparr>) = elems s (vs rhs) \<and>
            frame (set_option (buffer_f (data_f (vs this)))) s s1)"
proof -
  define v where "v = vs this"
  define r where "r = vs rhs"
  note vr = v_def[symmetric] r_def[symmetric]
  let ?v' = "v\<lparr>size_f := size_f r\<rparr>"
  have eq0: "assign_copy T this rhs vs s =
      (case copy_n T (buffer_f (data_f r)) 0 (min (size_f v) (size_f r))
              (buffer_f (data_f v)) 0 s of
         Throw e s1 \<Rightarrow> Throw e (vs, s1)
       | UB \<Rightarrow> UB
       | Ok _ s1 \<Rightarrow>
           (case (if size_f v < size_f r then
                    (case (RawMemory_plus (data_f r) (size_f v),
                           RawMemory_plus (data_f v) (size_f v)) of
                       (Some (p, i), Some (q, j)) \<Rightarrow>
                         uninitialized_copy_n T p i (size_f r - size_f v) q j s1
                     | _ \<Rightarrow> UB)
                  else if size_f v > size_f r then
                    (case RawMemory_plus (data_f v) (size_f r) of
                       Some (q, j) \<Rightarrow> destroy_n q j (size_f v - size_f r) s1
                     | None \<Rightarrow> UB)
                  else Ok () s1) of
              Throw e s2 \<Rightarrow> Throw e (vs, s2)
            | UB \<Rightarrow> UB
            | Ok _ s2 \<Rightarrow> Ok () (vs(this := ?v'), s2)))"
    using ne fit by (simp add: assign_copy_def Let_def vr)
  have goal: ?thesis
    if "(\<exists>s1. assign_copy T this rhs vs s = Throw ElementException (vs, s1) \<and>
            \<not> never_throws T \<and> frame (set_option (buffer_f (data_f v))) s s1) \<or>
         (\<exists>s1. assign_copy T this rhs vs s = Ok () (vs(this := ?v'), s1) \<and>
            wf T s1 ?v' \<and> elems s1 ?v' = elems s r \<and>
            frame (set_option (buffer_f (data_f v))) s s1)"
    using that by (simp add: vr)
  have wv': "wf T s v" and wr': "wf T s r" using wv wr by (simp_all add: vr)
  show ?thesis
  proof (cases "size_f r = 0")
    case r0: True
    show ?thesis
    proof (cases "size_f v = 0")
      case True
      then have "?v' = v" using r0 by simp
      then have "wf T s ?v'" using wv' by simp
      moreover have "assign_copy T this rhs vs s = Ok () (vs(this := ?v'), s)"
        using eq0 r0 True by simp
      ultimately show ?thesis using r0 by (intro goal) (simp add: elems_size_0)
    next
      case False
      then obtain q where q: "buffer_f (data_f v) = Some q"
        using wf_NoneD[OF wv'] by (cases "buffer_f (data_f v)") auto
      from wf_SomeD[OF wv' q] obtain bq where bq: "block s q = Some bq"
        "length bq = capacity_f (data_f v)" "size_f v \<le> capacity_f (data_f v)"
        "capacity_f (data_f v) < 2 ^ 63" "\<forall>m<size_f v. bq ! m \<noteq> None"
        "\<forall>m<length bq. size_f v \<le> m \<longrightarrow> bq ! m = None" by blast
      have "0 + size_f v \<le> length bq" "\<forall>m<size_f v. bq ! (0 + m) \<noteq> None"
        using bq by simp_all
      from destroy_n_cases[OF bq(1) this] obtain s1 b' where
        d: "destroy_n (Some q) 0 (size_f v) s = Ok () s1" and
        b': "\<forall>y. block s1 y = (if y = q then Some b' else block s y)" "length b' = length bq"
          "\<forall>m<length bq. b' ! m = (if 0 \<le> m \<and> m < 0 + size_f v then None else bq ! m)"
          "length (blocks s1) = length (blocks s)" by blast
      have 1: "assign_copy T this rhs vs s = Ok () (vs(this := ?v'), s1)"
        using eq0 r0 False d q by (simp add: RawMemory_plus_def)
      have 2: "wf T s1 ?v'"
        by (rule wfI[where a = q and b = b']) (use q b' bq r0 wv' in \<open>auto simp: wf_def\<close>)
      have 3: "frame (set_option (buffer_f (data_f v))) s s1"
        using frame_blockI[OF b'(1,4)] q by simp
      show ?thesis using 1 2 3 r0 by (intro goal) (simp add: elems_size_0)
    qed
  next
    case rpos: False
    then obtain a where a: "buffer_f (data_f r) = Some a"
      using wf_NoneD[OF wr'] by (cases "buffer_f (data_f r)") auto
    from rpos fit have "capacity_f (data_f v) \<noteq> 0" by (simp add: vr)
    then obtain q where q: "buffer_f (data_f v) = Some q"
      using wf_NoneD[OF wv'] by (cases "buffer_f (data_f v)") auto
    have aq: "a \<noteq> q" using dj a q by (simp add: vr)
    from wf_SomeD[OF wr' a] obtain ba where ba: "block s a = Some ba"
      "length ba = capacity_f (data_f r)" "size_f r \<le> capacity_f (data_f r)"
      "\<forall>m<size_f r. ba ! m \<noteq> None" by blast
    from wf_SomeD[OF wv' q] obtain bq where bq: "block s q = Some bq"
      "length bq = capacity_f (data_f v)" "size_f v \<le> capacity_f (data_f v)"
      "capacity_f (data_f v) < 2 ^ 63" "\<forall>m<size_f v. bq ! m \<noteq> None"
      "\<forall>m<length bq. size_f v \<le> m \<longrightarrow> bq ! m = None" by blast
    have fit': "size_f r \<le> capacity_f (data_f v)" using fit by (simp add: vr)
    let ?n = "min (size_f v) (size_f r)"
    have *: "0 + ?n \<le> length ba" "0 + ?n \<le> length bq"
      "\<forall>m<?n. ba ! (0 + m) \<noteq> None" "\<forall>m<?n. bq ! (0 + m) \<noteq> None"
      using ba bq by auto
    from copy_n_cases[OF aq ba(1) bq(1) *, of T]
    show ?thesis
    proof (elim disjE exE conjE)
      fix s1
      assume t: "copy_n T (Some a) 0 ?n (Some q) 0 s = Throw ElementException s1"
        "\<not> never_throws T"
      have "frame (set_option (Some q)) s s1"
        using copy_n_frame[of T "Some a" 0 ?n "Some q" 0 s s1] t(1) by simp
      moreover have "assign_copy T this rhs vs s = Throw ElementException (vs, s1)"
        using eq0 t(1) a q by simp
      ultimately show ?thesis using t(2) q by (intro goal) simp
    next
      fix s1 bq1
      assume o: "copy_n T (Some a) 0 ?n (Some q) 0 s = Ok () s1"
        "\<forall>y. block s1 y = (if y = q then Some bq1 else block s y)"
        "length bq1 = length bq"
        "\<forall>m<length bq. bq1 ! m = (if 0 \<le> m \<and> m < 0 + ?n then ba ! (0 + (m - 0)) else bq ! m)"
        "length (blocks s1) = length (blocks s)"
      have f1: "frame {q} s s1" using frame_blockI[OF o(2,5)] .
      have b1: "block s1 a = Some ba" "block s1 q = Some bq1" using o(2) aq ba(1) by simp_all
      have c1: "\<forall>m<length bq. bq1 ! m = (if m < ?n then ba ! m else bq ! m)"
        using o(4) by simp
      have fin: "wf T s2 ?v' \<and> elems s2 ?v' = elems s r"
        if "block s2 q = Some bq2" "length bq2 = length bq"
          "\<forall>m<length bq. bq2 ! m = (if m < size_f r then ba ! m else None)" for s2 bq2
      proof (rule copied_into[OF q that(1) _ wv' fit' a ba(1) _ refl ba(4)])
        show "length bq2 = capacity_f (data_f v)" using that(2) bq(2) by simp
        show "size_f r \<le> length ba" using ba(2,3) by simp
        show "\<forall>m<size_f r. bq2 ! m = ba ! m" using that(3) fit' bq(2) by simp
        show "\<forall>m<length bq2. size_f r \<le> m \<longrightarrow> bq2 ! m = None" using that(2,3) by simp
      qed
      consider (less) "size_f v < size_f r" | (greater) "size_f r < size_f v"
        | (equal) "size_f v = size_f r" by linarith
      then show ?thesis
      proof cases
        case less
        let ?k = "size_f r - size_f v"
        have eq1: "assign_copy T this rhs vs s =
            (case copy_loop T (Some a) (size_f v) (Some q) (size_f v) 0 ?k s1 of
               Throw e s2 \<Rightarrow> Throw e (vs, s2)
             | UB \<Rightarrow> UB
             | Ok _ s2 \<Rightarrow> Ok () (vs(this := ?v'), s2))"
          using eq0 o(1) a q less ba(3) bq(3)
          by (simp add: RawMemory_plus_def uninitialized_copy_n_def)
        have **: "size_f v + 0 + ?k \<le> length ba" "size_f v + 0 + ?k \<le> length bq1"
          "\<forall>m. 0 \<le> m \<and> m < 0 + ?k \<longrightarrow> ba ! (size_f v + m) \<noteq> None"
          "\<forall>m<0. bq1 ! (size_f v + m) \<noteq> None"
          "\<forall>m. 0 \<le> m \<and> m < 0 + ?k \<longrightarrow> bq1 ! (size_f v + m) = None"
          using less ba bq o(3) fit' c1 by auto
        from copy_loop_cases[OF aq b1 **, of T]
        show ?thesis
        proof (elim disjE exE conjE)
          fix s2 bq2
          assume u: "copy_loop T (Some a) (size_f v) (Some q) (size_f v) 0 ?k s1 = Ok () s2"
            "\<forall>y. block s2 y = (if y = q then Some bq2 else block s1 y)"
            "length bq2 = length bq1"
            "\<forall>m<length bq1. bq2 ! m =
               (if size_f v + 0 \<le> m \<and> m < size_f v + 0 + ?k
                then ba ! (size_f v + (m - size_f v)) else bq1 ! m)"
            "length (blocks s2) = length (blocks s1)"
          have 1: "assign_copy T this rhs vs s = Ok () (vs(this := ?v'), s2)"
            using eq1 u(1) by simp
          have c2: "\<forall>m<length bq. bq2 ! m = (if m < size_f r then ba ! m else None)"
            using u(4) o(3) c1 less bq(6) by auto
          have "block s2 q = Some bq2" "length bq2 = length bq" using u(2,3) o(3) by simp_all
          from fin[OF this c2] have 2: "wf T s2 ?v' \<and> elems s2 ?v' = elems s r" .
          have "frame {q} s1 s2" using frame_blockI[OF u(2,5)] .
          with f1 have "frame {q} s s2" by (rule frame_trans)
          with 1 2 q show ?thesis by (intro goal) simp
        next
          fix s2 bq2 evs
          assume t: "copy_loop T (Some a) (size_f v) (Some q) (size_f v) 0 ?k s1
              = Throw ElementException s2" "\<not> never_throws T"
          have "frame (set_option (Some q)) s1 s2"
            using copy_loop_frame[of T "Some a" "size_f v" "Some q" "size_f v" 0 ?k s1 s2] t(1)
            by simp
          with f1 have "frame {q} s s2" by (auto intro: frame_trans)
          moreover have "assign_copy T this rhs vs s = Throw ElementException (vs, s2)"
            using eq1 t(1) by simp
          ultimately show ?thesis using t(2) q by (intro goal) simp
        qed
      next
        case greater
        let ?k = "size_f v - size_f r"
        have "size_f r + ?k \<le> length bq1" "\<forall>m<?k. bq1 ! (size_f r + m) \<noteq> None"
          using greater bq o(3) c1 by auto
        from destroy_n_cases[OF b1(2) this] obtain s2 bq2 where
          d: "destroy_n (Some q) (size_f r) ?k s1 = Ok () s2" and
          u: "\<forall>y. block s2 y = (if y = q then Some bq2 else block s1 y)"
            "length bq2 = length bq1"
            "\<forall>m<length bq1. bq2 ! m =
               (if size_f r \<le> m \<and> m < size_f r + ?k then None else bq1 ! m)"
            "length (blocks s2) = length (blocks s1)" by blast
        have 1: "assign_copy T this rhs vs s = Ok () (vs(this := ?v'), s2)"
          using eq0 o(1) a q greater d fit' by (simp add: RawMemory_plus_def)
        have c2: "\<forall>m<length bq. bq2 ! m = (if m < size_f r then ba ! m else None)"
          using u(3) o(3) c1 greater bq(6) by auto
        have "block s2 q = Some bq2" "length bq2 = length bq" using u(1,2) o(3) by simp_all
        from fin[OF this c2] have 2: "wf T s2 ?v' \<and> elems s2 ?v' = elems s r" .
        have "frame {q} s1 s2" using frame_blockI[OF u(1,4)] .
        with f1 have "frame {q} s s2" by (rule frame_trans)
        with 1 2 q show ?thesis by (intro goal) simp
      next
        case equal
        have 1: "assign_copy T this rhs vs s = Ok () (vs(this := ?v'), s1)"
          using eq0 o(1) a q equal by simp
        have c2: "\<forall>m<length bq. bq1 ! m = (if m < size_f r then ba ! m else None)"
          using c1 equal bq(6) by simp
        from fin[OF b1(2) o(3) c2] have 2: "wf T s1 ?v' \<and> elems s1 ?v' = elems s r" .
        from 1 2 f1 q show ?thesis by (intro goal) simp
      qed
    qed
  qed
qed


lemma wf_cong:
  "buffer_f (data_f v') = buffer_f (data_f v) \<Longrightarrow> capacity_f (data_f v') = capacity_f (data_f v) \<Longrightarrow>
   size_f v' = size_f v \<Longrightarrow> wf T s v' = wf T s v \<and> elems s v' = elems s v"
  by (simp add: wf_def elems_def split: option.splits)

lemma wf_buffer_less:
  "wf T s v \<Longrightarrow> y \<in> set_option (buffer_f (data_f v)) \<Longrightarrow> y < length (blocks s)"
  using wf_SomeD[of T s v y] block_Some_less[of s y] by auto

lemma assign_copy_fresh:
  assumes ne: "this \<noteq> rhs" and wv: "wf T s (vs this)" and wr: "wf T s (vs rhs)"
    and big: "capacity_f (data_f (vs this)) < size_f (vs rhs)"
  shows "(\<exists>e s1. assign_copy T this rhs vs s = Throw e (vs, s1) \<and> \<not> never_throws T \<and>
            frame (set_option (buffer_f (data_f (vs this)))) s s1) \<or>
         (\<exists>v' s1. assign_copy T this rhs vs s = Ok () (vs(this := v'), s1) \<and>
            size_f v' = size_f (vs rhs) \<and> wf T s1 v' \<and> elems s1 v' = elems s (vs rhs) \<and>
            frame (set_option (buffer_f (data_f (vs this)))) s s1 \<and>
            (\<forall>y\<in>set_option (buffer_f (data_f v')). length (blocks s) \<le> y))"
proof -
  define v where "v = vs this"
  define r where "r = vs rhs"
  note vr = v_def[symmetric] r_def[symmetric]
  have wv': "wf T s v" and wr': "wf T s r" using wv wr by (simp_all add: vr)
  have eq0: "assign_copy T this rhs vs s =
      (case Vector_copy T r s of
         Throw e s1 \<Rightarrow> Throw e (vs, s1)
       | UB \<Rightarrow> UB
       | Ok new_vector s1 \<Rightarrow>
           (case Swap (v, new_vector) of
              (v1, new_vector1) \<Rightarrow>
                (case Vector_destroy new_vector1 s1 of
                   Ok _ s2 \<Rightarrow> Ok () (vs(this := v1\<lparr>size_f := size_f r\<rparr>), s2)
                 | _ \<Rightarrow> UB)))"
    using ne big by (simp add: assign_copy_def Let_def vr)
  from Vector_copy_cases[OF wr']
  have "(\<exists>e s1. assign_copy T this rhs vs s = Throw e (vs, s1) \<and> \<not> never_throws T \<and>
            frame (set_option (buffer_f (data_f v))) s s1) \<or>
         (\<exists>v' s1. assign_copy T this rhs vs s = Ok () (vs(this := v'), s1) \<and>
            size_f v' = size_f r \<and> wf T s1 v' \<and> elems s1 v' = elems s r \<and>
            frame (set_option (buffer_f (data_f v))) s s1 \<and>
            (\<forall>y\<in>set_option (buffer_f (data_f v')). length (blocks s) \<le> y))"
  proof (elim disjE exE conjE)
    fix e s1
    assume t: "Vector_copy T r s = Throw e s1" "\<not> never_throws T" "frame {} s s1"
    have "frame (set_option (buffer_f (data_f v))) s s1" using t(3) by (rule frame_mono) simp
    moreover have "assign_copy T this rhs vs s = Throw e (vs, s1)" using eq0 t(1) by simp
    ultimately show ?thesis using t(2) by blast
  next
    fix c' s1
    assume o: "Vector_copy T r s = Ok c' s1" "size_f c' = size_f r" "wf T s1 c'"
      "elems s1 c' = elems s r" "frame {} s s1"
      "\<forall>y\<in>set_option (buffer_f (data_f c')). length (blocks s) \<le> y"
    let ?old = "\<lparr>data_f = (data_f c')\<lparr>buffer_f := buffer_f (data_f v),
                   capacity_f := capacity_f (data_f v)\<rparr>, size_f = size_f v\<rparr>"
    let ?v' = "\<lparr>data_f = (data_f v)\<lparr>buffer_f := buffer_f (data_f c'),
                   capacity_f := capacity_f (data_f c')\<rparr>, size_f = size_f c'\<rparr>
               \<lparr>size_f := size_f r\<rparr>"
    have "wf T s1 v" using wf_elems_frame[OF wv' o(5)] by simp
    then have "wf T s1 ?old" using wf_cong[of ?old v T s1] by simp
    from Vector_destroy_Ok[OF this] obtain s2 where
      d: "Vector_destroy ?old s1 = Ok () s2" and
      f: "frame (set_option (buffer_f (data_f v))) s1 s2" by auto
    have 1: "assign_copy T this rhs vs s = Ok () (vs(this := ?v'), s2)"
      using eq0 o(1) d by (simp add: Swap_def)
    have dj: "set_option (buffer_f (data_f c')) \<inter> set_option (buffer_f (data_f v)) = {}"
      using o(6) wf_buffer_less[OF wv'] by fastforce
    have "wf T s2 c' \<and> elems s2 c' = elems s1 c'" using wf_elems_frame[OF o(3) f dj] .
    moreover have "wf T s2 ?v' = wf T s2 c' \<and> elems s2 ?v' = elems s2 c'"
      by (rule wf_cong) (simp_all add: o(2))
    ultimately have 2: "wf T s2 ?v'" "elems s2 ?v' = elems s r" using o(4) by simp_all
    have "frame (set_option (buffer_f (data_f v))) s s1" using o(5) by (rule frame_mono) simp
    then have 3: "frame (set_option (buffer_f (data_f v))) s s2" using f by (rule frame_trans)
    have 4: "\<forall>y\<in>set_option (buffer_f (data_f ?v')). length (blocks s) \<le> y" using o(6) by simp
    have 5: "size_f ?v' = size_f r" by simp
    show ?thesis
      apply (rule disjI2)
      apply (rule exI[of _ ?v'], rule exI[of _ s2])
      apply (intro conjI 1 2 3 4 5)
      done
  qed
  then show ?thesis by (simp add: vr)
qed

lemma assign_copy_cases:
  assumes ne: "this \<noteq> rhs" and wv: "wf T s (vs this)" and wr: "wf T s (vs rhs)"
    and dj: "set_option (buffer_f (data_f (vs this))) \<inter>
             set_option (buffer_f (data_f (vs rhs))) = {}"
  shows "(\<exists>e s1. assign_copy T this rhs vs s = Throw e (vs, s1) \<and> \<not> never_throws T \<and>
            frame (set_option (buffer_f (data_f (vs this)))) s s1) \<or>
         (\<exists>v' s1. assign_copy T this rhs vs s = Ok () (vs(this := v'), s1) \<and>
            size_f v' = size_f (vs rhs) \<and> wf T s1 v' \<and> elems s1 v' = elems s (vs rhs) \<and>
            touches_own (vs this) s v' s1)"
proof (cases "capacity_f (data_f (vs this)) < size_f (vs rhs)")
  case True
  from assign_copy_fresh[OF ne wv wr True] show ?thesis
    by (elim disjE exE conjE) (auto simp: touches_own_def)
next
  case False
  then have "size_f (vs rhs) \<le> capacity_f (data_f (vs this))" by simp
  from assign_copy_in_place[OF ne wv wr dj this] show ?thesis
    by (elim disjE exE conjE) (auto simp: touches_own_def)
qed

lemma mutations_leave_other:
  assumes "wf T s c" "touches_own v s v' s1"
    and "set_option (buffer_f (data_f v)) \<inter> set_option (buffer_f (data_f c)) = {}"
    and "state_of (mutate_all T ms v' s1) = Some (v'', s2)"
  shows "wf T s1 c \<and> elems s1 c = elems s c \<and> wf T s2 c \<and> elems s2 c = elems s c"
proof -
  have f1: "frame (set_option (buffer_f (data_f v))) s s1"
    and fr: "\<forall>y\<in>set_option (buffer_f (data_f v')).
               y \<in> set_option (buffer_f (data_f v)) \<or> length (blocks s) \<le> y"
    using assms(2) by (simp_all add: touches_own_def)
  have 1: "wf T s1 c \<and> elems s1 c = elems s c"
    using wf_elems_frame[OF assms(1) f1] assms(3) by blast
  have "frame (set_option (buffer_f (data_f v'))) s1 s2"
    using mutate_all_touches[OF assms(4)] by (simp add: touches_own_def)
  moreover have "set_option (buffer_f (data_f c)) \<inter> set_option (buffer_f (data_f v')) = {}"
    using fr assms(3) wf_buffer_less[OF assms(1)] by fastforce
  ultimately have "wf T s2 c \<and> elems s2 c = elems s1 c"
    using wf_elems_frame[of T s1 c _ s2] 1 by blast
  with 1 show ?thesis by simp
qed


section \<open>Copies\<close>

text \<open>
  C8. For every well-formed Vector \<open>c\<close>: the copy constructor has no undefined behaviour
  and fails only if an allocation or a copy constructor throws; when it returns the
  Vector \<open>c'\<close>, \<open>c'\<close> has the size of \<open>c\<close>, a capacity equal to the size of \<open>c\<close>, and the
  elements of \<open>c\<close> in order; \<open>c\<close> itself is unchanged; what happened in between is one
  allocation of \<open>Size c\<close> elements (none for an empty \<open>c\<close>) and the copy construction of
  each element in order, so nothing was moved; and after any sequence of \<^verbatim>\<open>PushBack\<close>,
  \<^verbatim>\<open>PopBack\<close>, \<^verbatim>\<open>Reserve\<close>, \<^verbatim>\<open>Resize\<close>, \<^verbatim>\<open>Emplace\<close>, \<^verbatim>\<open>Erase\<close> and element assignments on
  \<open>c'\<close>, however it ends, \<open>c\<close> still holds the same elements. The same holds of the copy
  assignment \<^verbatim>\<open>*this = c\<close> to another well-formed Vector that owns another buffer: when
  it returns, \<^verbatim>\<open>*this\<close> has the size and the elements of \<open>c\<close>, no other object has
  changed, and mutating \<^verbatim>\<open>*this\<close> leaves \<open>c\<close> as it was. When either fails, \<open>c\<close> is
  unchanged.
\<close>

theorem copy_is_deep:
  assumes "wf T s c"
  shows "(case Vector_copy T c s of
            Ok c' s1 \<Rightarrow>
              Size c' = Size c \<and> Capacity c' = Size c \<and> wf T s1 c' \<and>
              elems s1 c' = elems s c \<and> elems s1 c = elems s c \<and>
              events_since s s1 =
                (if Size c = 0 then []
                 else OperatorNew (length (blocks s)) (Size c) #
                      map (\<lambda>m. Constructed CopyCtor (Slot (length (blocks s)) m) (elems s c ! m))
                        [0..<Size c]) \<and>
              (\<forall>ms c'' s2. state_of (mutate_all T ms c' s1) = Some (c'', s2) \<longrightarrow>
                 wf T s2 c \<and> elems s2 c = elems s c)
          | Throw e s1 \<Rightarrow> \<not> never_throws T \<and> wf T s1 c \<and> elems s1 c = elems s c
          | UB \<Rightarrow> False) \<and>
         (\<forall>vs this rhs.
            this \<noteq> rhs \<and> vs rhs = c \<and> wf T s (vs this) \<and>
            set_option (buffer_f (data_f (vs this))) \<inter> set_option (buffer_f (data_f c)) = {} \<longrightarrow>
            (case assign_copy T this rhs vs s of
               Ok _ (vs', s1) \<Rightarrow>
                 (\<forall>x. x \<noteq> this \<longrightarrow> vs' x = vs x) \<and>
                 Size (vs' this) = Size c \<and> wf T s1 (vs' this) \<and>
                 elems s1 (vs' this) = elems s c \<and> elems s1 c = elems s c \<and>
                 (\<forall>ms c'' s2. state_of (mutate_all T ms (vs' this) s1) = Some (c'', s2) \<longrightarrow>
                    wf T s2 c \<and> elems s2 c = elems s c)
             | Throw e (vs', s1) \<Rightarrow>
                 \<not> never_throws T \<and> vs' = vs \<and> wf T s1 c \<and> elems s1 c = elems s c
             | UB \<Rightarrow> False))"
proof (rule conjI)
  from Vector_copy_cases[OF assms]
  show "case Vector_copy T c s of
            Ok c' s1 \<Rightarrow>
              Size c' = Size c \<and> Capacity c' = Size c \<and> wf T s1 c' \<and>
              elems s1 c' = elems s c \<and> elems s1 c = elems s c \<and>
              events_since s s1 =
                (if Size c = 0 then []
                 else OperatorNew (length (blocks s)) (Size c) #
                      map (\<lambda>m. Constructed CopyCtor (Slot (length (blocks s)) m) (elems s c ! m))
                        [0..<Size c]) \<and>
              (\<forall>ms c'' s2. state_of (mutate_all T ms c' s1) = Some (c'', s2) \<longrightarrow>
                 wf T s2 c \<and> elems s2 c = elems s c)
          | Throw e s1 \<Rightarrow> \<not> never_throws T \<and> wf T s1 c \<and> elems s1 c = elems s c
          | UB \<Rightarrow> False"
  proof (elim disjE exE conjE)
    fix e s1
    assume t: "Vector_copy T c s = Throw e s1" "\<not> never_throws T" "frame {} s s1"
    from wf_elems_frame[OF assms t(3)] show ?thesis using t(1,2) by simp
  next
    fix c' s1
    assume o: "Vector_copy T c s = Ok c' s1" "size_f c' = size_f c"
      "capacity_f (data_f c') = size_f c" "wf T s1 c'" "elems s1 c' = elems s c"
      "frame {} s s1" "\<forall>y\<in>set_option (buffer_f (data_f c')). length (blocks s) \<le> y"
      "trace s1 = trace s @
         (if size_f c = 0 then []
          else OperatorNew (length (blocks s)) (size_f c) #
               map (\<lambda>m. Constructed CopyCtor (Slot (length (blocks s)) m) (elems s c ! m))
                 [0..<size_f c])"
    have c1: "wf T s1 c \<and> elems s1 c = elems s c" using wf_elems_frame[OF assms o(6)] by simp
    have dj: "set_option (buffer_f (data_f c')) \<inter> set_option (buffer_f (data_f c)) = {}"
      using o(7) wf_buffer_less[OF assms] by fastforce
    have m: "wf T s2 c \<and> elems s2 c = elems s c"
      if "state_of (mutate_all T ms c' s1) = Some (c'', s2)" for ms c'' s2
      using mutations_leave_other[OF _ touches_own_refl dj that] c1 by simp
    have ev: "events_since s s1 =
        (if size_f c = 0 then []
         else OperatorNew (length (blocks s)) (size_f c) #
              map (\<lambda>m. Constructed CopyCtor (Slot (length (blocks s)) m) (elems s c ! m))
                [0..<size_f c])"
      using o(8) by (rule events_sinceI)
    show ?thesis using o(1,2,3,4,5) c1 ev m by (simp add: Size_def Capacity_def)
  qed
next
  show "\<forall>vs this rhs.
            this \<noteq> rhs \<and> vs rhs = c \<and> wf T s (vs this) \<and>
            set_option (buffer_f (data_f (vs this))) \<inter> set_option (buffer_f (data_f c)) = {} \<longrightarrow>
            (case assign_copy T this rhs vs s of
               Ok _ (vs', s1) \<Rightarrow>
                 (\<forall>x. x \<noteq> this \<longrightarrow> vs' x = vs x) \<and>
                 Size (vs' this) = Size c \<and> wf T s1 (vs' this) \<and>
                 elems s1 (vs' this) = elems s c \<and> elems s1 c = elems s c \<and>
                 (\<forall>ms c'' s2. state_of (mutate_all T ms (vs' this) s1) = Some (c'', s2) \<longrightarrow>
                    wf T s2 c \<and> elems s2 c = elems s c)
             | Throw e (vs', s1) \<Rightarrow>
                 \<not> never_throws T \<and> vs' = vs \<and> wf T s1 c \<and> elems s1 c = elems s c
             | UB \<Rightarrow> False)"
  proof (intro allI impI, elim conjE)
    fix vs :: objects and this rhs
    assume h: "this \<noteq> rhs" "vs rhs = c" "wf T s (vs this)"
      "set_option (buffer_f (data_f (vs this))) \<inter> set_option (buffer_f (data_f c)) = {}"
    have wr: "wf T s (vs rhs)" using assms h(2) by simp
    have dj: "set_option (buffer_f (data_f (vs this))) \<inter>
        set_option (buffer_f (data_f (vs rhs))) = {}" using h(2,4) by simp
    from assign_copy_cases[OF h(1,3) wr dj]
    show "case assign_copy T this rhs vs s of
               Ok _ (vs', s1) \<Rightarrow>
                 (\<forall>x. x \<noteq> this \<longrightarrow> vs' x = vs x) \<and>
                 Size (vs' this) = Size c \<and> wf T s1 (vs' this) \<and>
                 elems s1 (vs' this) = elems s c \<and> elems s1 c = elems s c \<and>
                 (\<forall>ms c'' s2. state_of (mutate_all T ms (vs' this) s1) = Some (c'', s2) \<longrightarrow>
                    wf T s2 c \<and> elems s2 c = elems s c)
             | Throw e (vs', s1) \<Rightarrow>
                 \<not> never_throws T \<and> vs' = vs \<and> wf T s1 c \<and> elems s1 c = elems s c
             | UB \<Rightarrow> False"
    proof (elim disjE exE conjE)
      fix e s1
      assume t: "assign_copy T this rhs vs s = Throw e (vs, s1)" "\<not> never_throws T"
        "frame (set_option (buffer_f (data_f (vs this)))) s s1"
      have "set_option (buffer_f (data_f c)) \<inter> set_option (buffer_f (data_f (vs this))) = {}"
        using h(4) by blast
      from wf_elems_frame[OF assms t(3) this] show ?thesis using t(1,2) by simp
    next
      fix v' s1
      assume o: "assign_copy T this rhs vs s = Ok () (vs(this := v'), s1)"
        "size_f v' = size_f (vs rhs)" "wf T s1 v'" "elems s1 v' = elems s (vs rhs)"
        "touches_own (vs this) s v' s1"
      have m: "wf T s2 c \<and> elems s2 c = elems s c"
        if "state_of (mutate_all T ms v' s1) = Some (c'', s2)" for ms c'' s2
        using mutations_leave_other[OF assms o(5) h(4) that] by simp
      have c1: "wf T s1 c \<and> elems s1 c = elems s c"
        using mutations_leave_other[OF assms o(5) h(4), of "[]" v' s1] by simp
      show ?thesis using o(1,2,3,4) h(2) c1 m by (simp add: Size_def)
    qed
  qed
qed

theorem copy_is_deep_witness:
  "wf plain_int s123 v123 \<and> elems s123 v123 = [1, 2, 3] \<and>
   Vector_copy plain_int v123 s123 = Ok v123_copy s123_copy \<and>
   Capacity v123_copy = 3 \<and> elems s123_copy v123_copy = [1, 2, 3] \<and>
   (\<exists>c'' s2. mutate_all plain_int [Do_PushBack (ConstRef 4), Do_assign_element 0 9, Do_PopBack]
                v123_copy s123_copy = Ok () (c'', s2) \<and>
      elems s2 c'' = [9, 2, 3] \<and> elems s2 v123 = [1, 2, 3]) \<and>
   wf plain_int two_blocks (two_vectors 0) \<and> wf plain_int two_blocks (two_vectors 1) \<and>
   (\<exists>vs' s1. assign_copy plain_int 1 0 two_vectors two_blocks = Ok () (vs', s1) \<and>
      vs' 0 = two_vectors 0 \<and> elems s1 (vs' 1) = [1, 2] \<and> elems s1 (vs' 0) = [1, 2] \<and>
      (\<exists>c'' s2. mutate_all plain_int [Do_assign_element 0 7, Do_PopBack] (vs' 1) s1
                   = Ok () (c'', s2) \<and>
         elems s2 c'' = [7] \<and> elems s2 (vs' 0) = [1, 2]))"
proof -
  note D = copy_is_deep[OF wf_123]
  have vc: "Vector_copy plain_int v123 s123 = Ok v123_copy s123_copy"
    by (simp add: eval_defs v123_def s123_def v123_copy_def s123_copy_def)
  have e1: "Capacity v123_copy = 3" "elems s123_copy v123_copy = [1, 2, 3]"
    using D vc elems_123 by (simp_all add: Capacity_def Size_def v123_def v123_copy_def)
  have "\<exists>c'' s2. mutate_all plain_int [Do_PushBack (ConstRef 4), Do_assign_element 0 9, Do_PopBack]
                v123_copy s123_copy = Ok () (c'', s2) \<and> elems s2 c'' = [9, 2, 3]"
    by (simp add: eval_defs s123_def v123_copy_def s123_copy_def assign_element_def
        Vector_at_def PopBack_def)
  then obtain c'' s2 where
    mu: "mutate_all plain_int [Do_PushBack (ConstRef 4), Do_assign_element 0 9, Do_PopBack]
           v123_copy s123_copy = Ok () (c'', s2)" "elems s2 c'' = [9, 2, 3]" by blast
  have "\<forall>ms c'' s2. state_of (mutate_all plain_int ms v123_copy s123_copy) = Some (c'', s2) \<longrightarrow>
      wf plain_int s2 v123 \<and> elems s2 v123 = elems s123 v123"
    using D vc by simp
  moreover have "state_of (mutate_all plain_int
      [Do_PushBack (ConstRef 4), Do_assign_element 0 9, Do_PopBack] v123_copy s123_copy)
      = Some (c'', s2)"
    unfolding mu(1) by (simp add: state_of_def)
  ultimately have e2: "elems s2 v123 = [1, 2, 3]"
    using elems_123 by metis
  have w0: "wf plain_int two_blocks (two_vectors 0)" and w1: "wf plain_int two_blocks (two_vectors 1)"
    by (simp_all add: wf_def two_vectors_def two_blocks_def block_def plain_int_def)
  have el0: "elems two_blocks (two_vectors 0) = [1, 2]"
    by (simp add: elems_def two_vectors_def two_blocks_def block_def)
  note A = copy_is_deep[OF w0, THEN conjunct2, rule_format, of 1 0 two_vectors]
  have pre: "(1::nat) \<noteq> 0 \<and> two_vectors 0 = two_vectors 0 \<and> wf plain_int two_blocks (two_vectors 1) \<and>
      set_option (buffer_f (data_f (two_vectors 1))) \<inter>
      set_option (buffer_f (data_f (two_vectors 0))) = {}"
    using w1 by (simp add: two_vectors_def)
  define vs' where "vs' = two_vectors(1 := (two_vectors 1)\<lparr>size_f := 2\<rparr>)"
  define s1 :: "int store" where
    "s1 = \<lparr>blocks = [Some [Some 1, Some 2], Some [Some 1, Some 2]],
            trace = [Constructed CopyCtor (Slot 1 0) 1, Constructed CopyCtor (Slot 1 1) 2],
            leaked = []\<rparr>"
  have ac: "assign_copy plain_int 1 0 two_vectors two_blocks = Ok () (vs', s1)"
    by (simp add: eval_defs assign_copy_def two_vectors_def two_blocks_def vs'_def s1_def)
  from A[OF pre] ac have a1: "vs' 0 = two_vectors 0" "elems s1 (vs' 1) = [1, 2]"
    "elems s1 (vs' 0) = [1, 2]"
    and a2: "\<forall>ms c'' s2. state_of (mutate_all plain_int ms (vs' 1) s1) = Some (c'', s2) \<longrightarrow>
      wf plain_int s2 (two_vectors 0) \<and> elems s2 (two_vectors 0) = elems two_blocks (two_vectors 0)"
    using el0 by simp_all
  have "\<exists>c'' s2. mutate_all plain_int [Do_assign_element 0 7, Do_PopBack] (vs' 1) s1
      = Ok () (c'', s2) \<and> elems s2 c'' = [7]"
    by (simp add: eval_defs two_vectors_def vs'_def s1_def assign_element_def
        Vector_at_def PopBack_def)
  then obtain d'' t2 where
    mv: "mutate_all plain_int [Do_assign_element 0 7, Do_PopBack] (vs' 1) s1 = Ok () (d'', t2)"
      "elems t2 d'' = [7]" by blast
  have "state_of (mutate_all plain_int [Do_assign_element 0 7, Do_PopBack] (vs' 1) s1)
      = Some (d'', t2)"
    unfolding mv(1) by (simp add: state_of_def)
  with a2 have e3: "elems t2 (vs' 0) = [1, 2]"
    using el0 a1(1) by metis
  show ?thesis
    using wf_123 elems_123 vc e1 mu e2 w0 w1 ac a1 mv e3 by blast
qed

section \<open>Growth into a new block\<close>

text \<open>
  The reallocating branch of \<^verbatim>\<open>PushBack(Type&&)\<close> and \<^verbatim>\<open>EmplaceWithReallocate\<close>, with the new
  element at index \<open>i\<close>: the outcome and the constructor calls.
\<close>

lemma grow_cases:
  assumes wf: "wf T s v" and full: "size_f v = capacity_f (data_f v)"
    and i: "i \<le> size_f v"
    and fit: "(if size_f v = 0 then 1 else size_f v * 2) * size_of T < 2 ^ 63"
    and g: "arg_value s g = Some x"
    and out: "out =
      (case RawMemory_new T (if size_f v = 0 then 1 else (size_f v * 2) mod 2 ^ 64) s of
         Throw e s1 \<Rightarrow> Throw e (v, s1)
       | UB \<Rightarrow> UB
       | Ok new_data s1 \<Rightarrow>
           (case construct_from T g (buffer_f new_data) i s1 of
              Throw e s2 \<Rightarrow>
                (case RawMemory_destroy new_data s2 of Ok _ s3 \<Rightarrow> Throw e (v, s3) | _ \<Rightarrow> UB)
            | UB \<Rightarrow> UB
            | Ok _ s2 \<Rightarrow>
                (case SafeInitializedRawMemory T (buffer_f (data_f v)) 0 i
                        (buffer_f new_data) 0 s2 of
                   Throw e s3 \<Rightarrow>
                     (case RawMemory_destroy new_data s3 of
                        Ok _ s4 \<Rightarrow> Throw e (v, s4)
                      | _ \<Rightarrow> UB)
                 | UB \<Rightarrow> UB
                 | Ok _ s3 \<Rightarrow>
                     (case SafeInitializedRawMemory T (buffer_f (data_f v)) i (size_f v - i)
                             (buffer_f new_data) (i + 1) s3 of
                        Throw e s4 \<Rightarrow>
                          (case RawMemory_destroy new_data s4 of
                             Ok _ s5 \<Rightarrow> Throw e (v, s5)
                           | _ \<Rightarrow> UB)
                      | UB \<Rightarrow> UB
                      | Ok _ s4 \<Rightarrow>
                          (case destroy_n (buffer_f (data_f v)) 0 (size_f v) s4 of
                             Ok _ s5 \<Rightarrow>
                               (case RawMemory_Swap (data_f v, new_data) of
                                  (d, nd) \<Rightarrow>
                                    (case RawMemory_destroy nd s5 of
                                       Ok _ s6 \<Rightarrow>
                                         Ok r (v\<lparr>data_f := d,
                                                 size_f := (size_f v + 1) mod 2 ^ 64\<rparr>, s6)
                                     | _ \<Rightarrow> UB))
                           | _ \<Rightarrow> UB)))))"
  shows "(\<exists>e s'. out = Throw e (v, s') \<and> \<not> never_throws T \<and>
            list_all (constructed_by (relocation_ctor T)) (tl (constructions s s')))
       \<or> (\<exists>v' s'. out = Ok r (v', s') \<and>
            constructions s s' =
              Constructed (arg_ctor g) (Slot (length (blocks s)) i) x #
              map (\<lambda>m. Constructed (relocation_ctor T) (Slot (length (blocks s)) m) (elems s v ! m))
                [0..<i] @
              map (\<lambda>m. Constructed (relocation_ctor T) (Slot (length (blocks s)) (Suc m))
                         (elems s v ! m)) [i..<size_f v])"
proof -
  let ?n = "size_f v"
  define N where "N = (if ?n = 0 then 1 else ?n * 2)"
  let ?N = N
  let ?a' = "length (blocks s)"
  let ?K = "relocation_ctor T"
  let ?nd = "\<lparr>buffer_f = Some ?a', capacity_f = ?N\<rparr>"
  let ?new = "Constructed (arg_ctor g) (Slot ?a' i) x"
  have sz: "0 < size_of T" using wf by (simp add: wf_def)
  have fit: "N * size_of T < 2 ^ 63" using fit by (simp add: N_def)
  have N0: "?N \<noteq> 0" by (simp add: N_def)
  have N63: "?N < 2 ^ 63" using sz fit by (rule less_of_mult_less)
  have Nmod: "(if ?n = 0 then 1 else (?n * 2) mod 2 ^ 64) = ?N" using N63 by (auto simp: N_def)
  have iN: "i < ?N" using i by (auto simp: N_def)
  have nN: "?n + 1 \<le> ?N" by (auto simp: N_def)
  have Kdef: "(if nothrow_move_constructible T \<or> \<not> copy_constructible T
               then MoveCtor else CopyCtor) = ?K" by (simp add: relocation_ctor_def)
  from RawMemory_new_cases[OF N0 sz fit, of s] show ?thesis
  proof (elim disjE exE conjE)
    assume "RawMemory_new T ?N s = Throw BadAlloc s" "\<not> (?N < 2 ^ 63 \<and> never_throws T)"
    then have "out = Throw BadAlloc (v, s)" "\<not> never_throws T"
      using N63 by (simp_all add: out Nmod)
    then show ?thesis by simp
  next
    fix s1
    assume ok: "RawMemory_new T ?N s = Ok ?nd s1"
      "\<forall>x. block s1 x = (if x = ?a' then Some (replicate ?N None) else block s x)"
      "trace s1 = trace s @ [OperatorNew ?a' ?N]"
    have new: "block s1 ?a' = Some (replicate ?N None)" using ok(2) by simp
    have g1: "arg_value s1 g = Some x" using g ok(2) by (rule arg_value_new)
    have iN': "i < length (replicate ?N (None :: 'a option))" using iN by simp
    from construct_at_cases[OF new iN', of T "arg_ctor g" x] show ?thesis
    proof (elim disjE exE conjE)
      assume t: "construct_at T (arg_ctor g) x (Some ?a') i s1 = Throw ElementException s1"
        "\<not> never_throws T"
      from operator_delete_cases[OF new] obtain s3 where
        d: "operator_delete (Some ?a') s1 = Ok () s3" "trace s3 = trace s1 @ [OperatorDelete ?a']"
        by blast
      have "out = Throw ElementException (v, s3)"
        using ok(1) g1 t(1) d(1)
        by (simp add: out Nmod construct_from_def RawMemory_destroy_def Deallocate_def)
      moreover have "constructions s s3 = []"
        using constructionsI[of s3 s "[OperatorNew ?a' ?N, OperatorDelete ?a']"] d(2) ok(3)
        by simp
      ultimately show ?thesis using t(2) by simp
    next
      fix s2
      assume c: "construct_at T (arg_ctor g) x (Some ?a') i s1 = Ok () s2"
        "\<forall>y. block s2 y =
           (if y = ?a' then Some ((replicate ?N None)[i := Some x]) else block s1 y)"
        "trace s2 = trace s1 @ [?new]"
      let ?bq = "(replicate ?N (None :: 'a option))[i := Some x]"
      have bq: "block s2 ?a' = Some ?bq" using c(2) by simp
      have eq2: "out =
          (case SafeInitializedRawMemory T (buffer_f (data_f v)) 0 i (Some ?a') 0 s2 of
             Throw e s3 \<Rightarrow>
               (case RawMemory_destroy ?nd s3 of Ok _ s4 \<Rightarrow> Throw e (v, s4) | _ \<Rightarrow> UB)
           | UB \<Rightarrow> UB
           | Ok _ s3 \<Rightarrow>
               (case SafeInitializedRawMemory T (buffer_f (data_f v)) i (?n - i)
                       (buffer_f ?nd) (i + 1) s3 of
                  Throw e s4 \<Rightarrow>
                    (case RawMemory_destroy ?nd s4 of Ok _ s5 \<Rightarrow> Throw e (v, s5) | _ \<Rightarrow> UB)
                | UB \<Rightarrow> UB
                | Ok _ s4 \<Rightarrow>
                    (case destroy_n (buffer_f (data_f v)) 0 ?n s4 of
                       Ok _ s5 \<Rightarrow>
                         (case RawMemory_Swap (data_f v, ?nd) of
                            (d, nd) \<Rightarrow>
                              (case RawMemory_destroy nd s5 of
                                 Ok _ s6 \<Rightarrow>
                                   Ok r (v\<lparr>data_f := d,
                                           size_f := (size_f v + 1) mod 2 ^ 64\<rparr>, s6)
                               | _ \<Rightarrow> UB))
                     | _ \<Rightarrow> UB)))"
        using ok(1) g1 c(1) by (simp add: out Nmod construct_from_def)
      show ?thesis
      proof (cases "buffer_f (data_f v)")
        case None
        with wf have z: "?n = 0" "i = 0" using wf_NoneD i by fastforce+
        have "\<exists>v'. out = Ok r (v', s2)"
          using eq2 None z
          by (simp add: RawMemory_destroy_def Deallocate_def operator_delete_def)
        moreover have "constructions s s2 = [?new]"
          using constructionsI[of s2 s "[OperatorNew ?a' ?N, ?new]"] c(3) ok(3) by simp
        ultimately show ?thesis using z by auto
      next
        case (Some a)
        from wf_SomeD[OF wf Some] obtain ba where ba: "block s a = Some ba"
          "length ba = capacity_f (data_f v)"
          "\<forall>m<?n. ba ! m \<noteq> None" by blast
        have len: "length ba = ?n" using ba(2) full by simp
        have ne: "a \<noteq> ?a'" using ba(1) block_Some_less by blast
        have ba2: "block s2 a = Some ba" using c(2) ok(2) ne ba(1) by simp
        have el: "\<forall>m<?n. elems s v ! m = the (ba ! m)"
          using Some ba(1) len by (simp add: elems_def)
        have pre1: "0 + i \<le> length ba" "0 + i \<le> length ?bq"
          "\<forall>m<i. ba ! (0 + m) \<noteq> None" "\<forall>m<i. ?bq ! (0 + m) = None"
          using i len ba(3) iN by auto
        from SafeInitializedRawMemory_cases[OF ne ba2 bq pre1, of T]
        show ?thesis
        proof (elim disjE exE conjE)
          fix s3 ba' evs
          assume t: "SafeInitializedRawMemory T (Some a) 0 i (Some ?a') 0 s2
              = Throw ElementException s3" "\<not> never_throws T"
            "\<forall>y. block s3 y = (if y = a then Some ba' else block s2 y)"
            "trace s3 = trace s2 @ evs"
          assume evs: "list_all (\<lambda>ev. (if nothrow_move_constructible T \<or> \<not> copy_constructible T
                             then is_move_construction ev else is_copy_construction ev)
                            \<or> is_destruction ev) evs"
          have "block s3 ?a' = Some ?bq" using t(3) bq ne by simp
          from operator_delete_cases[OF this] obtain s4 where
            d: "operator_delete (Some ?a') s3 = Ok () s4"
              "trace s4 = trace s3 @ [OperatorDelete ?a']" by blast
          have "out = Throw ElementException (v, s4)"
            using eq2 Some t(1) d(1) by (simp add: RawMemory_destroy_def Deallocate_def)
          moreover have "constructions s s4 = ?new # filter is_construction evs"
            using constructionsI[of s4 s "[OperatorNew ?a' ?N, ?new] @ evs @ [OperatorDelete ?a']"]
              d(2) t(4) c(3) ok(3) by simp
          ultimately show ?thesis using t(2) relocation_events[OF evs] by simp
        next
          fix s3 bq1 ba1
          assume o: "SafeInitializedRawMemory T (Some a) 0 i (Some ?a') 0 s2 = Ok () s3"
            "\<forall>y. block s3 y =
               (if y = ?a' then Some bq1 else if y = a then Some ba1 else block s2 y)"
            "length bq1 = length ?bq" "length ba1 = length ba"
            "\<forall>m<length ?bq. bq1 ! m =
                (if 0 \<le> m \<and> m < 0 + i then ba ! (0 + (m - 0)) else ?bq ! m)"
            "\<forall>m<length ba. (ba ! m = None) = (ba1 ! m = None)"
            "\<forall>m<length ba. \<not> (0 \<le> m \<and> m < 0 + i) \<longrightarrow> ba1 ! m = ba ! m"
          assume tr3: "trace s3 = trace s2 @
              map (\<lambda>m. Constructed
                     (if nothrow_move_constructible T \<or> \<not> copy_constructible T
                      then MoveCtor else CopyCtor)
                     (Slot ?a' (0 + m)) (the (ba ! (0 + m)))) [0..<i]"
          let ?m1 = "map (\<lambda>m. Constructed ?K (Slot ?a' m) (elems s v ! m)) [0..<i]"
          have m1: "trace s3 = trace s2 @ ?m1"
            using tr3 el i unfolding Kdef by simp
          have b3: "block s3 a = Some ba1" "block s3 ?a' = Some bq1" using o(2) ne by simp_all
          have pre2: "i + (?n - i) \<le> length ba1" "i + 1 + (?n - i) \<le> length bq1"
            "\<forall>m<?n - i. ba1 ! (i + m) \<noteq> None" "\<forall>m<?n - i. bq1 ! (i + 1 + m) = None"
            using i len o(3,4,5,6) ba(3) nN by auto
          have eq3: "out =
              (case SafeInitializedRawMemory T (Some a) i (?n - i) (Some ?a') (i + 1) s3 of
                  Throw e s4 \<Rightarrow>
                    (case RawMemory_destroy ?nd s4 of Ok _ s5 \<Rightarrow> Throw e (v, s5) | _ \<Rightarrow> UB)
                | UB \<Rightarrow> UB
                | Ok _ s4 \<Rightarrow>
                    (case destroy_n (buffer_f (data_f v)) 0 ?n s4 of
                       Ok _ s5 \<Rightarrow>
                         (case RawMemory_Swap (data_f v, ?nd) of
                            (d, nd) \<Rightarrow>
                              (case RawMemory_destroy nd s5 of
                                 Ok _ s6 \<Rightarrow>
                                   Ok r (v\<lparr>data_f := d,
                                           size_f := (size_f v + 1) mod 2 ^ 64\<rparr>, s6)
                               | _ \<Rightarrow> UB))
                     | _ \<Rightarrow> UB))"
            using eq2 Some o(1) by simp
          from SafeInitializedRawMemory_cases[OF ne b3 pre2, of T]
          show ?thesis
          proof (elim disjE exE conjE)
            fix s4 ba' evs
            assume t: "SafeInitializedRawMemory T (Some a) i (?n - i) (Some ?a') (i + 1) s3
                = Throw ElementException s4" "\<not> never_throws T"
              "\<forall>y. block s4 y = (if y = a then Some ba' else block s3 y)"
              "trace s4 = trace s3 @ evs"
            assume evs: "list_all (\<lambda>ev. (if nothrow_move_constructible T \<or> \<not> copy_constructible T
                               then is_move_construction ev else is_copy_construction ev)
                              \<or> is_destruction ev) evs"
            have "block s4 ?a' = Some bq1" using t(3) b3(2) ne by simp
            from operator_delete_cases[OF this] obtain s5 where
              d: "operator_delete (Some ?a') s4 = Ok () s5"
                "trace s5 = trace s4 @ [OperatorDelete ?a']" by blast
            have "out = Throw ElementException (v, s5)"
              using eq3 t(1) d(1) by (simp add: RawMemory_destroy_def Deallocate_def)
            moreover have "constructions s s5 = ?new # ?m1 @ filter is_construction evs"
              using constructionsI[of s5 s
                  "[OperatorNew ?a' ?N, ?new] @ ?m1 @ evs @ [OperatorDelete ?a']"]
                d(2) t(4) m1 c(3) ok(3) by simp
            ultimately show ?thesis using t(2) relocation_events[OF evs] by simp
          next
            fix s4 bq2 ba2
            assume p: "SafeInitializedRawMemory T (Some a) i (?n - i) (Some ?a') (i + 1) s3
                = Ok () s4"
              "\<forall>y. block s4 y =
                 (if y = ?a' then Some bq2 else if y = a then Some ba2 else block s3 y)"
              "length ba2 = length ba1"
              "\<forall>m<length ba1. (ba1 ! m = None) = (ba2 ! m = None)"
            assume tr4: "trace s4 = trace s3 @
                map (\<lambda>m. Constructed
                       (if nothrow_move_constructible T \<or> \<not> copy_constructible T
                        then MoveCtor else CopyCtor)
                       (Slot ?a' (i + 1 + m)) (the (ba1 ! (i + m)))) [0..<?n - i]"
            let ?m2 = "map (\<lambda>m. Constructed ?K (Slot ?a' (Suc m)) (elems s v ! m)) [i..<?n]"
            have "map (\<lambda>m. Constructed ?K (Slot ?a' (i + 1 + m)) (the (ba1 ! (i + m)))) [0..<?n - i]
                = map (\<lambda>m. Constructed ?K (Slot ?a' (Suc (i + m))) (elems s v ! (i + m))) [0..<?n - i]"
              using el o(7) len by simp
            also have "\<dots> = map ((\<lambda>m. Constructed ?K (Slot ?a' (Suc m)) (elems s v ! m)) \<circ> (\<lambda>m. m + i))
                [0..<?n - i]"
              by (simp add: add.commute)
            also have "\<dots> = ?m2"
              using i map_add_upt[of i "?n - i"] by (simp add: map_map[symmetric] del: map_map)
            finally have m2: "trace s4 = trace s3 @ ?m2" using tr4 unfolding Kdef by simp
            have b4: "block s4 a = Some ba2" using p(2) ne by simp
            have live: "0 + ?n \<le> length ba2" "\<forall>m<?n. ba2 ! (0 + m) \<noteq> None"
              using p(3,4) o(4,6) len ba(3) by auto
            from destroy_n_cases[OF b4 live] obtain s5 b5 where
              e: "destroy_n (Some a) 0 ?n s4 = Ok () s5"
                "\<forall>y. block s5 y = (if y = a then Some b5 else block s4 y)"
                "trace s5 = trace s4 @ map (\<lambda>m. Destroyed (Slot a m) (the (ba2 ! m))) [0..<0 + ?n]"
              by blast
            have "block s5 a = Some b5" using e(2) by simp
            from operator_delete_cases[OF this] obtain s6 where
              d: "operator_delete (Some a) s5 = Ok () s6"
                "trace s6 = trace s5 @ [OperatorDelete a]" by blast
            have "\<exists>v'. out = Ok r (v', s6)"
              using eq3 p(1) e(1) d(1) Some by (simp add: RawMemory_destroy_def Deallocate_def)
            moreover have "constructions s s6 = ?new # ?m1 @ ?m2"
              using constructionsI[of s6 s
                  "[OperatorNew ?a' ?N, ?new] @ ?m1 @ ?m2 @
                   map (\<lambda>m. Destroyed (Slot a m) (the (ba2 ! m))) [0..<0 + ?n] @
                   [OperatorDelete a]"]
                d(2) e(3) m2 m1 c(3) ok(3) by simp
            ultimately show ?thesis by auto
          qed
        qed
      qed
    qed
  qed
qed


lemma PushBack_forward_grow:
  "\<not> size_f v < capacity_f (data_f v) \<Longrightarrow>
   PushBack_forward T g v s =
      (case RawMemory_new T (if size_f v = 0 then 1 else (size_f v * 2) mod 2 ^ 64) s of
         Throw e s1 \<Rightarrow> Throw e (v, s1)
       | UB \<Rightarrow> UB
       | Ok new_data s1 \<Rightarrow>
           (case construct_from T g (buffer_f new_data) (size_f v) s1 of
              Throw e s2 \<Rightarrow>
                (case RawMemory_destroy new_data s2 of Ok _ s3 \<Rightarrow> Throw e (v, s3) | _ \<Rightarrow> UB)
            | UB \<Rightarrow> UB
            | Ok _ s2 \<Rightarrow>
                (case SafeInitializedRawMemory T (buffer_f (data_f v)) 0 (size_f v)
                        (buffer_f new_data) 0 s2 of
                   Throw e s3 \<Rightarrow>
                     (case RawMemory_destroy new_data s3 of
                        Ok _ s4 \<Rightarrow> Throw e (v, s4)
                      | _ \<Rightarrow> UB)
                 | UB \<Rightarrow> UB
                 | Ok _ s3 \<Rightarrow>
                     (case SafeInitializedRawMemory T (buffer_f (data_f v)) (size_f v)
                             (size_f v - size_f v) (buffer_f new_data) (size_f v + 1) s3 of
                        Throw e s4 \<Rightarrow>
                          (case RawMemory_destroy new_data s4 of
                             Ok _ s5 \<Rightarrow> Throw e (v, s5)
                           | _ \<Rightarrow> UB)
                      | UB \<Rightarrow> UB
                      | Ok _ s4 \<Rightarrow>
                          (case destroy_n (buffer_f (data_f v)) 0 (size_f v) s4 of
                             Ok _ s5 \<Rightarrow>
                               (case RawMemory_Swap (data_f v, new_data) of
                                  (d, nd) \<Rightarrow>
                                    (case RawMemory_destroy nd s5 of
                                       Ok _ s6 \<Rightarrow>
                                         Ok () (v\<lparr>data_f := d,
                                                 size_f := (size_f v + 1) mod 2 ^ 64\<rparr>, s6)
                                     | _ \<Rightarrow> UB))
                           | _ \<Rightarrow> UB)))))"
  by (simp add: PushBack_forward_def cong: outcome.case_cong)

lemma EmplaceWithReallocate_grow:
  "pos \<le> size_f v \<Longrightarrow> size_f v < 2 ^ 31 \<Longrightarrow>
   EmplaceWithReallocate T pos g v s =
      (case RawMemory_new T (if size_f v = 0 then 1 else (size_f v * 2) mod 2 ^ 64) s of
         Throw e s1 \<Rightarrow> Throw e (v, s1)
       | UB \<Rightarrow> UB
       | Ok new_data s1 \<Rightarrow>
           (case construct_from T g (buffer_f new_data) pos s1 of
              Throw e s2 \<Rightarrow>
                (case RawMemory_destroy new_data s2 of Ok _ s3 \<Rightarrow> Throw e (v, s3) | _ \<Rightarrow> UB)
            | UB \<Rightarrow> UB
            | Ok _ s2 \<Rightarrow>
                (case SafeInitializedRawMemory T (buffer_f (data_f v)) 0 pos
                        (buffer_f new_data) 0 s2 of
                   Throw e s3 \<Rightarrow>
                     (case RawMemory_destroy new_data s3 of
                        Ok _ s4 \<Rightarrow> Throw e (v, s4)
                      | _ \<Rightarrow> UB)
                 | UB \<Rightarrow> UB
                 | Ok _ s3 \<Rightarrow>
                     (case SafeInitializedRawMemory T (buffer_f (data_f v)) pos
                             (size_f v - pos) (buffer_f new_data) (pos + 1) s3 of
                        Throw e s4 \<Rightarrow>
                          (case RawMemory_destroy new_data s4 of
                             Ok _ s5 \<Rightarrow> Throw e (v, s5)
                           | _ \<Rightarrow> UB)
                      | UB \<Rightarrow> UB
                      | Ok _ s4 \<Rightarrow>
                          (case destroy_n (buffer_f (data_f v)) 0 (size_f v) s4 of
                             Ok _ s5 \<Rightarrow>
                               (case RawMemory_Swap (data_f v, new_data) of
                                  (d, nd) \<Rightarrow>
                                    (case RawMemory_destroy nd s5 of
                                       Ok _ s6 \<Rightarrow>
                                         Ok pos (v\<lparr>data_f := d,
                                                 size_f := (size_f v + 1) mod 2 ^ 64\<rparr>, s6)
                                     | _ \<Rightarrow> UB))
                           | _ \<Rightarrow> UB)))))"
proof -
  assume a: "pos \<le> size_f v" "size_f v < 2 ^ 31"
  then have p: "to_int (int pos) = int pos" by (intro to_int_small) simp
  have m: "(size_f v + 18446744073709551616 - pos) mod 18446744073709551616 = size_f v - pos"
    using a by (simp add: mod_if)
  show ?thesis
  proof (cases "size_f v = 0")
    case True
    then have "pos = 0" using a by simp
    then show ?thesis using True
      by (simp add: EmplaceWithReallocate_def Let_def to_int_def cong: outcome.case_cong)
  next
    case False
    then show ?thesis
      by (simp add: EmplaceWithReallocate_def Let_def p m cong: outcome.case_cong)
  qed
qed


lemma PushBack_forward_cases:
  assumes "wf T s v" "size_f v = capacity_f (data_f v)"
    and "(if size_f v = 0 then 1 else size_f v * 2) * size_of T < 2 ^ 63"
    and "arg_value s g = Some x"
  shows "(\<exists>e s'. PushBack_forward T g v s = Throw e (v, s') \<and> \<not> never_throws T \<and>
            list_all (constructed_by (relocation_ctor T)) (tl (constructions s s')))
       \<or> (\<exists>v' s'. PushBack_forward T g v s = Ok () (v', s') \<and>
            constructions s s' =
              Constructed (arg_ctor g) (Slot (length (blocks s)) (size_f v)) x #
              map (\<lambda>m. Constructed (relocation_ctor T) (Slot (length (blocks s)) m) (elems s v ! m))
                [0..<size_f v])"
proof -
  have "\<not> size_f v < capacity_f (data_f v)" using assms(2) by simp
  from grow_cases[OF assms(1,2) le_refl assms(3,4) PushBack_forward_grow[OF this]]
  show ?thesis by simp
qed

lemma Emplace_grow_cases:
  assumes "wf T s v" "size_f v = capacity_f (data_f v)"
    and "(if size_f v = 0 then 1 else size_f v * 2) * size_of T < 2 ^ 63"
    and "arg_value s g = Some x" and "pos \<le> size_f v" "size_f v < 2 ^ 31"
  shows "(\<exists>e s'. Emplace T pos g v s = Throw e (v, s') \<and> \<not> never_throws T \<and>
            list_all (constructed_by (relocation_ctor T)) (tl (constructions s s')))
       \<or> (\<exists>v' s'. Emplace T pos g v s = Ok pos (v', s') \<and>
            constructions s s' =
              Constructed (arg_ctor g) (Slot (length (blocks s)) pos) x #
              map (\<lambda>m. Constructed (relocation_ctor T) (Slot (length (blocks s)) m) (elems s v ! m))
                [0..<pos] @
              map (\<lambda>m. Constructed (relocation_ctor T) (Slot (length (blocks s)) (Suc m))
                         (elems s v ! m)) [pos..<size_f v])"
proof -
  have "Emplace T pos g v s = EmplaceWithReallocate T pos g v s"
    using assms(2) by (simp add: Emplace_def Capacity_def)
  with grow_cases[OF assms(1,2,5,3,4) EmplaceWithReallocate_grow[OF assms(5,6)]]
  show ?thesis by simp
qed

lemma arg_const_ref [simp]:
  "arg_value s (const_ref g) = arg_value s g" "arg_ctor (const_ref g) = CopyCtor"
  by (cases g; simp add: const_ref_def arg_value_def arg_ctor_def)+

lemma PushBack_grow_cases:
  assumes "wf T s v" "size_f v = capacity_f (data_f v)"
    and "(if size_f v = 0 then 1 else size_f v * 2) * size_of T < 2 ^ 63"
    and "arg_value s g = Some x" and "size_f v < 2 ^ 31"
  shows "(\<exists>e s'. PushBack T g v s = Throw e (v, s') \<and> \<not> never_throws T \<and>
            list_all (constructed_by (relocation_ctor T)) (tl (constructions s s')))
       \<or> (\<exists>v' s'. PushBack T g v s = Ok () (v', s') \<and>
            constructions s s' =
              Constructed CopyCtor (Slot (length (blocks s)) (size_f v)) x #
              map (\<lambda>m. Constructed (relocation_ctor T) (Slot (length (blocks s)) m) (elems s v ! m))
                [0..<size_f v])"
proof -
  have g: "arg_value s (const_ref g) = Some x" using assms(4) by simp
  from Emplace_grow_cases[OF assms(1,2,3) g le_refl assms(5)]
  show ?thesis by (auto simp: PushBack_def EmplaceBack_def)
qed

lemma only_events_constructions:
  "only_events P s s' \<Longrightarrow> list_all P (constructions s s')"
  by (simp add: only_events_def constructions_def list_all_iff)

lemma no_copy_construction:
  assumes "list_all (constructed_by MoveCtor) (constructions s s')"
  shows "\<not> list_ex is_copy_construction (events_since s s')"
proof
  assume "list_ex is_copy_construction (events_since s s')"
  then obtain ev where ev: "ev \<in> set (events_since s s')" "is_copy_construction ev"
    by (auto simp: list_ex_iff)
  have "is_construction ev"
    using ev(2) by (cases ev) (simp_all add: is_copy_construction_def)
  with ev(1) have "ev \<in> set (constructions s s')" by (simp add: constructions_def)
  with assms have "constructed_by MoveCtor ev" by (simp add: list_all_iff)
  with ev(2) show False using not_copy_if_move by blast
qed

section \<open>Relocation\<close>

text \<open>
  C4. Let \<open>v\<close> be a well-formed \<^verbatim>\<open>Vector<T>\<close>. The constructor that relocates a live element
  into a new block is the one that \<open>relocation_ctor T\<close> names: the move constructor when
  the move constructor of \<^verbatim>\<open>T\<close> is \<^verbatim>\<open>noexcept\<close> or \<^verbatim>\<open>T\<close> cannot be copied, the copy
  constructor otherwise; it depends on the two traits of \<^verbatim>\<open>T\<close> only.

  A \<^verbatim>\<open>Reserve(k)\<close> that grows (\<open>k\<close> objects fitting the address space) has no undefined
  behaviour; when it returns, its constructor calls are exactly one call of that
  constructor per live element, in order, into the same index of the new block; when it
  throws, something of \<^verbatim>\<open>T\<close> can throw and every constructor call made was of that kind.
  If the move constructor is \<^verbatim>\<open>noexcept\<close>, no copy constructor is called at all.

  An append to a full Vector (the new capacity fitting the address space), by the
  template \<^verbatim>\<open>PushBack(Type&&)\<close>, by \<^verbatim>\<open>PushBack(const T&)\<close> or by \<^verbatim>\<open>Emplace\<close> at a
  position \<open>pos\<close>, has no undefined behaviour; when it returns, its constructor calls
  are exactly the construction of the new element from the argument at its index of the
  new block, followed by one call of that constructor per live element, in order, the
  elements from \<open>pos\<close> on going one index higher; when it throws, every constructor
  call after that of the new element was of that kind. The two functions that go through
  \<^verbatim>\<open>Emplace\<close> are taken below \<open>2 ^ 31\<close> elements, where \<^verbatim>\<open>int index\<close> holds the position.
\<close>

theorem relocation_constructor_fixed_by_type:
  assumes "wf T s v"
  shows
    "(Capacity v < k \<and> k * size_of T < 2 ^ 63 \<longrightarrow>
        (case Reserve T k v s of
           Ok _ (v', s') \<Rightarrow>
             constructions s s' =
               map (\<lambda>m. Constructed (relocation_ctor T) (Slot (length (blocks s)) m)
                          (elems s v ! m)) [0..<Size v] \<and>
             (nothrow_move_constructible T \<longrightarrow>
                \<not> list_ex is_copy_construction (events_since s s'))
         | Throw e (v', s') \<Rightarrow>
             \<not> never_throws T \<and>
             list_all (constructed_by (relocation_ctor T)) (constructions s s') \<and>
             (nothrow_move_constructible T \<longrightarrow>
                \<not> list_ex is_copy_construction (events_since s s'))
         | UB \<Rightarrow> False)) \<and>
     (Size v = Capacity v \<and> (if Size v = 0 then 1 else Size v * 2) * size_of T < 2 ^ 63 \<and>
      arg_value s g = Some x \<longrightarrow>
        (case PushBack_forward T g v s of
           Ok _ (v', s') \<Rightarrow>
             constructions s s' =
               Constructed (arg_ctor g) (Slot (length (blocks s)) (Size v)) x #
               map (\<lambda>m. Constructed (relocation_ctor T) (Slot (length (blocks s)) m)
                          (elems s v ! m)) [0..<Size v]
         | Throw e (v', s') \<Rightarrow>
             \<not> never_throws T \<and>
             list_all (constructed_by (relocation_ctor T)) (tl (constructions s s'))
         | UB \<Rightarrow> False) \<and>
        (Size v < 2 ^ 31 \<longrightarrow>
           (case PushBack T g v s of
              Ok _ (v', s') \<Rightarrow>
                constructions s s' =
                  Constructed CopyCtor (Slot (length (blocks s)) (Size v)) x #
                  map (\<lambda>m. Constructed (relocation_ctor T) (Slot (length (blocks s)) m)
                             (elems s v ! m)) [0..<Size v]
            | Throw e (v', s') \<Rightarrow>
                \<not> never_throws T \<and>
                list_all (constructed_by (relocation_ctor T)) (tl (constructions s s'))
            | UB \<Rightarrow> False) \<and>
           (pos \<le> Size v \<longrightarrow>
              (case Emplace T pos g v s of
                 Ok i (v', s') \<Rightarrow>
                   i = pos \<and>
                   constructions s s' =
                     Constructed (arg_ctor g) (Slot (length (blocks s)) pos) x #
                     map (\<lambda>m. Constructed (relocation_ctor T) (Slot (length (blocks s)) m)
                                (elems s v ! m)) [0..<pos] @
                     map (\<lambda>m. Constructed (relocation_ctor T) (Slot (length (blocks s)) (Suc m))
                                (elems s v ! m)) [pos..<Size v]
               | Throw e (v', s') \<Rightarrow>
                   \<not> never_throws T \<and>
                   list_all (constructed_by (relocation_ctor T)) (tl (constructions s s'))
               | UB \<Rightarrow> False))))"
proof (intro conjI impI; (elim conjE)?)
  assume k: "Capacity v < k" and fit: "k * size_of T < 2 ^ 63"
  have k': "capacity_f (data_f v) < k" using k by (simp add: Capacity_def)
  have k63: "k < 2 ^ 63"
    using assms fit by (intro less_of_mult_less[of "size_of T" k]) (simp_all add: wf_def)
  have mv: "nothrow_move_constructible T \<Longrightarrow>
      list_all (constructed_by (relocation_ctor T)) (constructions s s') \<Longrightarrow>
      \<not> list_ex is_copy_construction (events_since s s')" for s'
    using no_copy_construction[of s s'] by (simp add: relocation_ctor_def)
  from Reserve_cases[OF assms k' fit]
  show "case Reserve T k v s of
           Ok _ (v', s') \<Rightarrow>
             constructions s s' =
               map (\<lambda>m. Constructed (relocation_ctor T) (Slot (length (blocks s)) m)
                          (elems s v ! m)) [0..<Size v] \<and>
             (nothrow_move_constructible T \<longrightarrow>
                \<not> list_ex is_copy_construction (events_since s s'))
         | Throw e (v', s') \<Rightarrow>
             \<not> never_throws T \<and>
             list_all (constructed_by (relocation_ctor T)) (constructions s s') \<and>
             (nothrow_move_constructible T \<longrightarrow>
                \<not> list_ex is_copy_construction (events_since s s'))
         | UB \<Rightarrow> False"
  proof (elim disjE exE conjE)
    assume "Reserve T k v s = Throw BadAlloc (v, s)" "\<not> (k < 2 ^ 63 \<and> never_throws T)"
    then show ?thesis using k63 by (simp add: events_since_def)
  next
    fix s'
    assume t: "Reserve T k v s = Throw ElementException (v, s')" "\<not> never_throws T"
      "only_events (constructed_by (relocation_ctor T)) s s'"
    from only_events_constructions[OF t(3)] show ?thesis using t(1,2) mv by simp
  next
    fix s'
    assume r: "Reserve T k v s =
        Ok () (\<lparr>data_f = \<lparr>buffer_f = Some (length (blocks s)), capacity_f = k\<rparr>,
                size_f = size_f v\<rparr>, s')"
      "constructions s s' =
         map (\<lambda>m. Constructed (relocation_ctor T) (Slot (length (blocks s)) m) (elems s v ! m))
           [0..<size_f v]"
    have "list_all (constructed_by (relocation_ctor T)) (constructions s s')"
      unfolding r(2) by simp
    then show ?thesis using r mv by (simp add: Size_def)
  qed
next
  assume full: "Size v = Capacity v"
    and fit: "(if Size v = 0 then 1 else Size v * 2) * size_of T < 2 ^ 63"
    and g: "arg_value s g = Some x"
  have full': "size_f v = capacity_f (data_f v)" using full by (simp add: Size_def Capacity_def)
  have fit': "(if size_f v = 0 then 1 else size_f v * 2) * size_of T < 2 ^ 63"
    using fit unfolding Size_def .
  from PushBack_forward_cases[OF assms full' fit' g]
  show "case PushBack_forward T g v s of
           Ok _ (v', s') \<Rightarrow>
             constructions s s' =
               Constructed (arg_ctor g) (Slot (length (blocks s)) (Size v)) x #
               map (\<lambda>m. Constructed (relocation_ctor T) (Slot (length (blocks s)) m)
                          (elems s v ! m)) [0..<Size v]
         | Throw e (v', s') \<Rightarrow>
             \<not> never_throws T \<and>
             list_all (constructed_by (relocation_ctor T)) (tl (constructions s s'))
         | UB \<Rightarrow> False"
    by (elim disjE exE conjE) (simp_all add: Size_def)
next
  assume full: "Size v = Capacity v"
    and fit: "(if Size v = 0 then 1 else Size v * 2) * size_of T < 2 ^ 63"
    and g: "arg_value s g = Some x" and small: "Size v < 2 ^ 31"
  have full': "size_f v = capacity_f (data_f v)" using full by (simp add: Size_def Capacity_def)
  have fit': "(if size_f v = 0 then 1 else size_f v * 2) * size_of T < 2 ^ 63"
    using fit unfolding Size_def .
  have small': "size_f v < 2 ^ 31" using small by (simp add: Size_def)
  from PushBack_grow_cases[OF assms full' fit' g small']
  show "case PushBack T g v s of
              Ok _ (v', s') \<Rightarrow>
                constructions s s' =
                  Constructed CopyCtor (Slot (length (blocks s)) (Size v)) x #
                  map (\<lambda>m. Constructed (relocation_ctor T) (Slot (length (blocks s)) m)
                             (elems s v ! m)) [0..<Size v]
            | Throw e (v', s') \<Rightarrow>
                \<not> never_throws T \<and>
                list_all (constructed_by (relocation_ctor T)) (tl (constructions s s'))
            | UB \<Rightarrow> False"
    by (elim disjE exE conjE) (simp_all add: Size_def)
next
  assume full: "Size v = Capacity v"
    and fit: "(if Size v = 0 then 1 else Size v * 2) * size_of T < 2 ^ 63"
    and g: "arg_value s g = Some x" and small: "Size v < 2 ^ 31" and pos: "pos \<le> Size v"
  have full': "size_f v = capacity_f (data_f v)" using full by (simp add: Size_def Capacity_def)
  have fit': "(if size_f v = 0 then 1 else size_f v * 2) * size_of T < 2 ^ 63"
    using fit unfolding Size_def .
  have small': "size_f v < 2 ^ 31" using small by (simp add: Size_def)
  have pos': "pos \<le> size_f v" using pos by (simp add: Size_def)
  from Emplace_grow_cases[OF assms full' fit' g pos' small']
  show "case Emplace T pos g v s of
                 Ok i (v', s') \<Rightarrow>
                   i = pos \<and>
                   constructions s s' =
                     Constructed (arg_ctor g) (Slot (length (blocks s)) pos) x #
                     map (\<lambda>m. Constructed (relocation_ctor T) (Slot (length (blocks s)) m)
                                (elems s v ! m)) [0..<pos] @
                     map (\<lambda>m. Constructed (relocation_ctor T) (Slot (length (blocks s)) (Suc m))
                                (elems s v ! m)) [pos..<Size v]
               | Throw e (v', s') \<Rightarrow>
                   \<not> never_throws T \<and>
                   list_all (constructed_by (relocation_ctor T)) (tl (constructions s s'))
               | UB \<Rightarrow> False"
    by (elim disjE exE conjE) (simp_all add: Size_def)
qed


theorem relocation_constructor_fixed_by_type_witness:
  "wf plain_int two_blocks (two_vectors 0) \<and> wf copied_int two_blocks (two_vectors 0) \<and>
   elems two_blocks (two_vectors 0) = [1, 2] \<and>
   (\<exists>v' s'. Reserve plain_int 3 (two_vectors 0) two_blocks = Ok () (v', s') \<and>
      constructions two_blocks s' =
        [Constructed MoveCtor (Slot 2 0) 1, Constructed MoveCtor (Slot 2 1) 2] \<and>
      \<not> list_ex is_copy_construction (events_since two_blocks s')) \<and>
   (\<exists>v' s'. Reserve copied_int 3 (two_vectors 0) two_blocks = Ok () (v', s') \<and>
      constructions two_blocks s' =
        [Constructed CopyCtor (Slot 2 0) 1, Constructed CopyCtor (Slot 2 1) 2]) \<and>
   (\<exists>v' s'. PushBack_forward plain_int (RvalueRef 3) (two_vectors 0) two_blocks = Ok () (v', s') \<and>
      constructions two_blocks s' =
        [Constructed MoveCtor (Slot 2 2) 3, Constructed MoveCtor (Slot 2 0) 1,
         Constructed MoveCtor (Slot 2 1) 2]) \<and>
   (\<exists>v' s'. PushBack copied_int (ConstRef 3) (two_vectors 0) two_blocks = Ok () (v', s') \<and>
      constructions two_blocks s' =
        [Constructed CopyCtor (Slot 2 2) 3, Constructed CopyCtor (Slot 2 0) 1,
         Constructed CopyCtor (Slot 2 1) 2]) \<and>
   (\<exists>v' s'. Emplace plain_int 1 (Args 5) (two_vectors 0) two_blocks = Ok 1 (v', s') \<and>
      constructions two_blocks s' =
        [Constructed ArgsCtor (Slot 2 1) 5, Constructed MoveCtor (Slot 2 0) 1,
         Constructed MoveCtor (Slot 2 2) 2])"
proof -
  let ?v = "two_vectors 0"
  have wp: "wf plain_int two_blocks ?v" and wc: "wf copied_int two_blocks ?v"
    by (simp_all add: wf_def two_vectors_def two_blocks_def block_def plain_int_def
        copied_int_def)
  have el: "elems two_blocks ?v = [1, 2]"
    by (simp add: elems_def two_vectors_def two_blocks_def block_def)
  have nt: "never_throws plain_int" "never_throws copied_int"
    by (simp_all add: never_throws_def plain_int_def copied_int_def)
  have c: "Size ?v = 2" "Capacity ?v = 2" "length (blocks two_blocks) = 2"
    "size_of plain_int = 4" "size_of copied_int = 4"
    "relocation_ctor plain_int = MoveCtor" "relocation_ctor copied_int = CopyCtor"
    "nothrow_move_constructible plain_int"
    by (simp_all add: Size_def Capacity_def two_vectors_def two_blocks_def plain_int_def
        copied_int_def relocation_ctor_def)
  have up: "[0..<2] = [0, Suc 0]" "[Suc 0..<2] = [Suc 0]" "[0..<Suc 0] = [0]"
    by (simp_all add: upt_rec)
  note P = relocation_constructor_fixed_by_type[OF wp]
  note C = relocation_constructor_fixed_by_type[OF wc]
  have 1: "\<exists>v' s'. Reserve plain_int 3 ?v two_blocks = Ok () (v', s') \<and>
      constructions two_blocks s' =
        [Constructed MoveCtor (Slot 2 0) 1, Constructed MoveCtor (Slot 2 1) 2] \<and>
      \<not> list_ex is_copy_construction (events_since two_blocks s')"
    using P[where k = 3, THEN conjunct1] nt(1)
    by (cases "Reserve plain_int 3 ?v two_blocks") (auto simp: c el up)
  have 2: "\<exists>v' s'. Reserve copied_int 3 ?v two_blocks = Ok () (v', s') \<and>
      constructions two_blocks s' =
        [Constructed CopyCtor (Slot 2 0) 1, Constructed CopyCtor (Slot 2 1) 2]"
    using C[where k = 3, THEN conjunct1] nt(2)
    by (cases "Reserve copied_int 3 ?v two_blocks") (auto simp: c el up)
  have 3: "\<exists>v' s'. PushBack_forward plain_int (RvalueRef 3) ?v two_blocks = Ok () (v', s') \<and>
      constructions two_blocks s' =
        [Constructed MoveCtor (Slot 2 2) 3, Constructed MoveCtor (Slot 2 0) 1,
         Constructed MoveCtor (Slot 2 1) 2]"
    using P[where g = "RvalueRef 3" and x = 3, THEN conjunct2] nt(1)
    by (cases "PushBack_forward plain_int (RvalueRef 3) ?v two_blocks")
      (auto simp: c el up arg_value_def arg_ctor_def)
  have 4: "\<exists>v' s'. PushBack copied_int (ConstRef 3) ?v two_blocks = Ok () (v', s') \<and>
      constructions two_blocks s' =
        [Constructed CopyCtor (Slot 2 2) 3, Constructed CopyCtor (Slot 2 0) 1,
         Constructed CopyCtor (Slot 2 1) 2]"
    using C[where g = "ConstRef 3" and x = 3, THEN conjunct2] nt(2)
    by (cases "PushBack copied_int (ConstRef 3) ?v two_blocks")
      (auto simp: c el up arg_value_def arg_ctor_def)
  have 5: "\<exists>v' s'. Emplace plain_int 1 (Args 5) ?v two_blocks = Ok 1 (v', s') \<and>
      constructions two_blocks s' =
        [Constructed ArgsCtor (Slot 2 1) 5, Constructed MoveCtor (Slot 2 0) 1,
         Constructed MoveCtor (Slot 2 2) 2]"
    using P[where g = "Args 5" and x = 5 and pos = 1, THEN conjunct2] nt(1)
    by (cases "Emplace plain_int 1 (Args 5) ?v two_blocks")
      (auto simp: c el up arg_value_def arg_ctor_def)
  show ?thesis using wp wc el 1 2 3 4 5 by blast
qed

end
